theory Spec2Isabelle
  imports Complex_Main "HOL-Library.Product_Lexorder" "HOL-Library.List_Lexorder" "HOL-Library.Char_ord"
begin

section \<open>Crime anniversaries: the normalisation and export pipeline\<close>

text \<open>
  A shallow embedding of \<^verbatim>\<open>src/crime_anniversaries.py\<close>: the Wikidata normaliser
  \<^verbatim>\<open>process_wikidata_results\<close>, the On-This-Day loop of \<^verbatim>\<open>main\<close> and the export
  block of \<^verbatim>\<open>main\<close>.

  Conventions of the embedding.
  \<^item> Python dictionaries with text keys are association lists, in the order of
    insertion and with no key twice; \<^verbatim>\<open>d.get(k, default)\<close> is \<open>dict_get\<close>, \<^verbatim>\<open>d[k]\<close>
    raises \<open>KeyError\<close> on a missing key.  The feed objects,
    whose values have different types, are records with one optional field per key the
    script reads (\<open>None\<close>: the key is missing).
  \<^item> Exceptions are values: a function that can raise returns \<open>py_error + 'a\<close>.
  \<^item> A character of the model is a code point below 256 (the type \<open>char\<close>, read as the
    code point and not as a byte), so a text of the model is a \<^verbatim>\<open>str\<close> whose characters
    lie between U+0000 and U+00FF.  On these, case folding (\<^verbatim>\<open>str.lower\<close>, \<^verbatim>\<open>re.I\<close>),
    word characters (\<^verbatim>\<open>\w\<close>, \<^verbatim>\<open>\b\<close>), digits (\<^verbatim>\<open>\d\<close>) and white space (\<^verbatim>\<open>\s\<close>) are
    those that Python gives a \<^verbatim>\<open>str\<close>, the upper half included.  Texts with a character
    above U+00FF are not represented; among those characters \<^verbatim>\<open>re.I\<close> lets U+0130 and
    U+0131 stand for the letter i, U+017F for s and U+212A for k, which no character of
    the model does.
  \<^item> The HTTP calls are inputs: the decoded answer of the SPARQL endpoint and a function
    from feed URLs to decoded answers (\<open>None\<close>: the request raised).
  \<^item> The syntax of \<^verbatim>\<open>datetime.fromisoformat\<close> is a parameter \<open>parse\<close> of the model (the
    fields of the date it reads, or \<open>None\<close> where it raises); the range check of the
    \<^verbatim>\<open>datetime\<close> constructor is modelled.  Month names are those of the English locale.
  \<^item> Values have the types of the two interfaces: the fields of a Wikidata binding are
    texts, the year of an event is an integer, coordinates are numbers (rationals here,
    carried unchanged).  Of what the script prints, the counters of the Wikidata
    normaliser and the closing line of the export block are kept.  The pause between
    requests and failures of the file system are left out.
\<close>

subsection \<open>Exceptions and dictionaries\<close>

datatype py_error = ValueError | KeyError | IndexError

definition dict_get :: "('k \<times> 'v) list \<Rightarrow> 'k \<Rightarrow> 'v \<Rightarrow> 'v" where
  "dict_get d k dflt = (case map_of d k of None \<Rightarrow> dflt | Some v \<Rightarrow> v)"

text \<open>A Python list read at an integer index: negative indices count from the end.\<close>

definition list_index :: "'a list \<Rightarrow> int \<Rightarrow> py_error + 'a" where
  "list_index xs i =
     (if 0 \<le> i \<and> i < int (length xs) then Inr (xs ! nat i)
      else if i < 0 \<and> - int (length xs) \<le> i then Inr (xs ! nat (int (length xs) + i))
      else Inl IndexError)"

subsection \<open>Text\<close>

text \<open>A character is in the ASCII half when its code point is below 128.\<close>

definition is_ascii :: "char \<Rightarrow> bool" where
  "is_ascii c = (\<not> digit7 c)"

text \<open>\<^verbatim>\<open>str.lower\<close> on one character: the letters A to Z go to a to z; in the upper half
  the capital letters, U+00C0 to U+00DE without the multiplication sign U+00D7, go to
  the character 32 places further.\<close>

definition upper_half_capitals :: "char list" where
  "upper_half_capitals =
     [CHR 0xC0, CHR 0xC1, CHR 0xC2, CHR 0xC3, CHR 0xC4, CHR 0xC5, CHR 0xC6, CHR 0xC7,
      CHR 0xC8, CHR 0xC9, CHR 0xCA, CHR 0xCB, CHR 0xCC, CHR 0xCD, CHR 0xCE, CHR 0xCF,
      CHR 0xD0, CHR 0xD1, CHR 0xD2, CHR 0xD3, CHR 0xD4, CHR 0xD5, CHR 0xD6, CHR 0xD8,
      CHR 0xD9, CHR 0xDA, CHR 0xDB, CHR 0xDC, CHR 0xDD, CHR 0xDE]"

definition upper_half_smalls :: "char list" where
  "upper_half_smalls =
     [CHR 0xE0, CHR 0xE1, CHR 0xE2, CHR 0xE3, CHR 0xE4, CHR 0xE5, CHR 0xE6, CHR 0xE7,
      CHR 0xE8, CHR 0xE9, CHR 0xEA, CHR 0xEB, CHR 0xEC, CHR 0xED, CHR 0xEE, CHR 0xEF,
      CHR 0xF0, CHR 0xF1, CHR 0xF2, CHR 0xF3, CHR 0xF4, CHR 0xF5, CHR 0xF6, CHR 0xF8,
      CHR 0xF9, CHR 0xFA, CHR 0xFB, CHR 0xFC, CHR 0xFD, CHR 0xFE]"

definition lower_char :: "char \<Rightarrow> char" where
  "lower_char c =
     (case (if is_ascii c
            then map_of (zip ''ABCDEFGHIJKLMNOPQRSTUVWXYZ'' ''abcdefghijklmnopqrstuvwxyz'') c
            else map_of (zip upper_half_capitals upper_half_smalls) c) of
        None \<Rightarrow> c | Some l \<Rightarrow> l)"

definition lower :: "string \<Rightarrow> string" where
  "lower s = map lower_char s"

text \<open>\<^verbatim>\<open>s.replace(c, rep)\<close> for a one-character \<^verbatim>\<open>c\<close>: every occurrence is replaced.\<close>

definition replace :: "char \<Rightarrow> string \<Rightarrow> string \<Rightarrow> string" where
  "replace c rep s = concat (map (\<lambda>x. if x = c then rep else [x]) s)"

definition startswith :: "string \<Rightarrow> string \<Rightarrow> bool" where
  "startswith s p = (take (length p) s = p)"

fun join :: "string \<Rightarrow> string list \<Rightarrow> string" where
  "join sep [] = []"
| "join sep [x] = x"
| "join sep (x # y # ys) = x @ sep @ join sep (y # ys)"

definition digit_char :: "nat \<Rightarrow> char" where
  "digit_char n = ''0123456789'' ! n"

function str_nat :: "nat \<Rightarrow> string" where
  "str_nat n = (if n < 10 then [digit_char n] else str_nat (n div 10) @ [digit_char (n mod 10)])"
  by pat_completeness auto
termination
  by (relation "measure id") auto

definition str_int :: "int \<Rightarrow> string" where
  "str_int i = (if i < 0 then CHR ''-'' # str_nat (nat (- i)) else str_nat (nat i))"

text \<open>The format \<^verbatim>\<open>f"{i:02}"\<close>: the decimal numeral, zero-padded on the left to width 2.\<close>

definition fmt02 :: "int \<Rightarrow> string" where
  "fmt02 i = (let s = str_int i in replicate (2 - length s) CHR ''0'' @ s)"

definition is_digit :: "char \<Rightarrow> bool" where
  "is_digit c = (c \<in> set ''0123456789'')"

definition digit_val :: "char \<Rightarrow> int" where
  "digit_val c = (case map_of (zip ''0123456789'' [0, 1, 2, 3, 4, 5, 6, 7, 8, 9]) c of
                    None \<Rightarrow> 0 | Some v \<Rightarrow> v)"

text \<open>The class \<^verbatim>\<open>\s\<close> of \<^verbatim>\<open>re\<close> on \<^verbatim>\<open>str\<close>: the white space of ASCII, the four separators
  U+001C to U+001F, the next-line control U+0085 and the no-break space U+00A0.\<close>

definition is_space :: "char \<Rightarrow> bool" where
  "is_space c = (c \<in> set [CHR '' '', CHR 0x09, CHR 0x0A, CHR 0x0B, CHR 0x0C, CHR 0x0D,
                            CHR 0x1C, CHR 0x1D, CHR 0x1E, CHR 0x1F, CHR 0x85, CHR 0xA0])"

text \<open>The class \<^verbatim>\<open>\w\<close> of \<^verbatim>\<open>re\<close> on \<^verbatim>\<open>str\<close>: the letters and digits of ASCII and the
  underscore; in the upper half the letters (U+00AA, U+00B5, U+00BA, and U+00C0 to
  U+00FF without the signs U+00D7 and U+00F7) and the numeric characters (U+00B2,
  U+00B3, U+00B9, U+00BC to U+00BE).\<close>

definition upper_half_word_chars :: "char list" where
  "upper_half_word_chars =
     [CHR 0xAA, CHR 0xB2, CHR 0xB3, CHR 0xB5, CHR 0xB9, CHR 0xBA, CHR 0xBC, CHR 0xBD,
      CHR 0xBE, CHR 0xC0, CHR 0xC1, CHR 0xC2, CHR 0xC3, CHR 0xC4, CHR 0xC5, CHR 0xC6,
      CHR 0xC7, CHR 0xC8, CHR 0xC9, CHR 0xCA, CHR 0xCB, CHR 0xCC, CHR 0xCD, CHR 0xCE,
      CHR 0xCF, CHR 0xD0, CHR 0xD1, CHR 0xD2, CHR 0xD3, CHR 0xD4, CHR 0xD5, CHR 0xD6,
      CHR 0xD8, CHR 0xD9, CHR 0xDA, CHR 0xDB, CHR 0xDC, CHR 0xDD, CHR 0xDE, CHR 0xDF,
      CHR 0xE0, CHR 0xE1, CHR 0xE2, CHR 0xE3, CHR 0xE4, CHR 0xE5, CHR 0xE6, CHR 0xE7,
      CHR 0xE8, CHR 0xE9, CHR 0xEA, CHR 0xEB, CHR 0xEC, CHR 0xED, CHR 0xEE, CHR 0xEF,
      CHR 0xF0, CHR 0xF1, CHR 0xF2, CHR 0xF3, CHR 0xF4, CHR 0xF5, CHR 0xF6, CHR 0xF8,
      CHR 0xF9, CHR 0xFA, CHR 0xFB, CHR 0xFC, CHR 0xFD, CHR 0xFE, CHR 0xFF]"

definition is_word :: "char \<Rightarrow> bool" where
  "is_word c =
     (if is_ascii c
      then c \<in> set ''abcdefghijklmnopqrstuvwxyzABCDEFGHIJKLMNOPQRSTUVWXYZ0123456789_''
      else c \<in> set upper_half_word_chars)"

subsection \<open>Settings\<close>

definition YEAR_CUTOFF :: int where
  "YEAR_CUTOFF = 1900"

definition MAX_PAGES :: nat where
  "MAX_PAGES = 5"

text \<open>
  \<^verbatim>\<open>CRIME_RE\<close>, compiled with \<^verbatim>\<open>re.I | re.X\<close>, is \<^verbatim>\<open>\b( ... )\b\<close> around an alternation
  of literal words, some with an optional or alternative suffix.  A backtracking matcher
  tries the alternatives from left to right and a greedy optional suffix before its
  absence, which is the order of this list.  Under \<^verbatim>\<open>re.I\<close> a character up to U+00FF
  stands for a letter of the pattern exactly when \<^verbatim>\<open>str.lower\<close> takes it to that letter,
  and for the space of the pattern when it is the space.
\<close>

definition CRIME_RE_alternatives :: "string list" where
  "CRIME_RE_alternatives =
     [''murder'', ''assassination'', ''assassin'', ''shooting'', ''robbery'',
      ''kidnapping'', ''kidnap'', ''hijack'', ''massacre'', ''bombing'', ''bomb'',
      ''terrorism'', ''terrorist'', ''serial killer'', ''strangler'', ''ripper'', ''fraud'',
      ''embezzle'', ''embezzlement'', ''money laundering'', ''insider trading'',
      ''tax evasion'', ''bribery'', ''corruption'', ''extortion'', ''ponzi'', ''scam'',
      ''securities fraud'', ''pyramid scheme'', ''price fixing'', ''racketeering'',
      ''manslaughter'', ''assault'', ''rape'', ''arson'']"

text \<open>\<^verbatim>\<open>\b\<close> between two neighbouring positions (\<open>None\<close>: outside the text).\<close>

definition word_boundary :: "char option \<Rightarrow> char option \<Rightarrow> bool" where
  "word_boundary a b =
     ((case a of None \<Rightarrow> False | Some c \<Rightarrow> is_word c) \<noteq> (case b of None \<Rightarrow> False | Some c \<Rightarrow> is_word c))"

definition last_opt :: "string \<Rightarrow> char option" where
  "last_opt s = (case rev s of [] \<Rightarrow> None | c # _ \<Rightarrow> Some c)"

definition head_opt :: "string \<Rightarrow> char option" where
  "head_opt s = (case s of [] \<Rightarrow> None | c # _ \<Rightarrow> Some c)"

text \<open>One alternative at the start of \<open>s\<close>, followed by the closing \<^verbatim>\<open>\b\<close>; the result is
  the text of group 1 as it stands in \<open>s\<close>.\<close>

definition match_alternative :: "string \<Rightarrow> string \<Rightarrow> string option" where
  "match_alternative alt s =
     (let n = length alt
      in if n \<le> length s \<and> lower (take n s) = alt
            \<and> word_boundary (last_opt (take n s)) (head_opt (drop n s))
         then Some (take n s) else None)"

fun match_first :: "string list \<Rightarrow> string \<Rightarrow> string option" where
  "match_first [] s = None"
| "match_first (alt # alts) s =
     (case match_alternative alt s of Some g \<Rightarrow> Some g | None \<Rightarrow> match_first alts s)"

text \<open>\<^verbatim>\<open>CRIME_RE.search\<close>: the leftmost position with a match; \<open>prev\<close> is the character
  before the position.\<close>

fun search_from :: "char option \<Rightarrow> string \<Rightarrow> string option" where
  "search_from prev [] = None"
| "search_from prev (c # cs) =
     (if word_boundary prev (Some c)
      then (case match_first CRIME_RE_alternatives (c # cs) of
              Some g \<Rightarrow> Some g
            | None \<Rightarrow> search_from (Some c) cs)
      else search_from (Some c) cs)"

definition CRIME_RE_search :: "string \<Rightarrow> string option" where
  "CRIME_RE_search s = search_from None s"

subsection \<open>Dates\<close>

text \<open>A date is (year, month, day).  \<open>datetime_new\<close> is the range check that every
  constructor of \<^verbatim>\<open>datetime.date\<close> and \<^verbatim>\<open>datetime.datetime\<close> runs.\<close>

type_synonym date = "int \<times> int \<times> int"

definition is_leap :: "int \<Rightarrow> bool" where
  "is_leap y = (y mod 4 = 0 \<and> (y mod 100 \<noteq> 0 \<or> y mod 400 = 0))"

text \<open>The length of a month between 1 and 12.\<close>

definition days_in_month :: "int \<Rightarrow> int \<Rightarrow> int" where
  "days_in_month y m =
     (if m = 2 \<and> is_leap y then 29
      else [0, 31, 28, 31, 30, 31, 30, 31, 31, 30, 31, 30, 31] ! nat m)"

definition datetime_new :: "int \<Rightarrow> int \<Rightarrow> int \<Rightarrow> py_error + date" where
  "datetime_new y m d =
     (if \<not> (1 \<le> y \<and> y \<le> 9999) then Inl ValueError
      else if \<not> (1 \<le> m \<and> m \<le> 12) then Inl ValueError
      else if \<not> (1 \<le> d \<and> d \<le> days_in_month y m) then Inl ValueError
      else Inr (y, m, d))"

type_synonym iso_parser = "string \<Rightarrow> (int \<times> int \<times> int) option"

definition fromisoformat :: "iso_parser \<Rightarrow> string \<Rightarrow> py_error + date" where
  "fromisoformat parse s =
     (case parse s of None \<Rightarrow> Inl ValueError | Some (y, m, d) \<Rightarrow> datetime_new y m d)"

definition month_name :: "string list" where
  "month_name = ['''', ''January'', ''February'', ''March'', ''April'', ''May'', ''June'', ''July'',
                 ''August'', ''September'', ''October'', ''November'', ''December'']"

text \<open>\<^verbatim>\<open>f"{calendar.month_name[dt.month]} {dt.day}"\<close>\<close>

definition date_label_of :: "date \<Rightarrow> py_error + string" where
  "date_label_of dt =
     (case dt of (y, m, d) \<Rightarrow>
        (case list_index month_name m of
           Inl e \<Rightarrow> Inl e
         | Inr name \<Rightarrow> Inr (name @ '' '' @ str_int d)))"

subsection \<open>The objects of the daily feed\<close>

text \<open>An answer of the feed has the key \<^verbatim>\<open>events\<close>; an event has \<^verbatim>\<open>text\<close>, \<^verbatim>\<open>year\<close> and
  \<^verbatim>\<open>pages\<close>; a page has \<^verbatim>\<open>title\<close>, \<^verbatim>\<open>description\<close>, \<^verbatim>\<open>content_urls\<close> (a dictionary
  of dictionaries of texts), \<^verbatim>\<open>extract\<close> and \<^verbatim>\<open>coordinates\<close> (a dictionary of numbers).
  A field is \<open>None\<close> when the key is missing.\<close>

record page =
  title :: "string option"
  description :: "string option"
  content_urls :: "(string \<times> (string \<times> string) list) list option"
  "extract" :: "string option"
  coordinates :: "(string \<times> rat) list option"

record event =
  "text" :: "string option"
  year :: "int option"
  pages :: "page list option"

record feed =
  events :: "event list option"

subsection \<open>Event records and the two accumulators\<close>

text \<open>The values under \<^verbatim>\<open>latitude\<close> and \<^verbatim>\<open>longitude\<close>: the empty text or the number
  found in the feed, carried unchanged.\<close>

datatype cell = Blank | Number rat

record row =
  source :: string
  month :: string
  day :: string
  year_of_event :: int
  event :: string
  title :: string
  description :: string
  crime_type :: string
  country :: string
  url :: string
  latitude :: cell
  longitude :: cell
  "extract" :: string
  related_topics :: string
  topic_page_urls :: string

text \<open>The payload is the row without \<^verbatim>\<open>month\<close>, \<^verbatim>\<open>day\<close>, \<^verbatim>\<open>latitude\<close>, \<^verbatim>\<open>longitude\<close>
  and \<^verbatim>\<open>source\<close>.\<close>

record payload =
  p_year_of_event :: int
  p_event :: string
  p_title :: string
  p_description :: string
  p_crime_type :: string
  p_country :: string
  p_url :: string
  p_extract :: string
  p_related_topics :: string
  p_topic_page_urls :: string

definition payload_of :: "row \<Rightarrow> payload" where
  "payload_of r =
     \<lparr>p_year_of_event = year_of_event r, p_event = event r, p_title = title r,
      p_description = description r, p_crime_type = crime_type r, p_country = country r,
      p_url = url r, p_extract = extract r, p_related_topics = related_topics r,
      p_topic_page_urls = topic_page_urls r\<rparr>"

text \<open>An entry of the Date Group Map is a dictionary \<^verbatim>\<open>{event_text: payload}\<close>.\<close>

type_synonym entry = "(string \<times> payload) list"

type_synonym date_groups = "(string \<times> entry list) list"

text \<open>\<^verbatim>\<open>events_by_date[k].append(x)\<close> on a \<^verbatim>\<open>defaultdict(list)\<close>: a new key goes to the
  end of the dictionary.\<close>

fun dd_append :: "string \<Rightarrow> 'a \<Rightarrow> (string \<times> 'a list) list \<Rightarrow> (string \<times> 'a list) list" where
  "dd_append k x [] = [(k, [x])]"
| "dd_append k x ((k', xs) # g) =
     (if k' = k then (k', xs @ [x]) # g else (k', xs) # dd_append k x g)"

record accum =
  all_rows :: "row list"
  events_by_date :: date_groups

definition accum_empty :: accum where
  "accum_empty = \<lparr>all_rows = [], events_by_date = []\<rparr>"

text \<open>The last three statements of both loop bodies: \<^verbatim>\<open>rows.append(row)\<close>, the payload,
  \<^verbatim>\<open>events_by_date[date_label].append({event_text: payload})\<close>.\<close>

definition append_record :: "string \<Rightarrow> row \<Rightarrow> accum \<Rightarrow> accum" where
  "append_record date_label r acc =
     \<lparr>all_rows = all_rows acc @ [r],
      events_by_date = dd_append date_label [(event r, payload_of r)] (events_by_date acc)\<rparr>"

subsection \<open>The Wikidata normaliser\<close>

text \<open>A row of \<^verbatim>\<open>results.bindings\<close> maps a variable of the query to a binding, itself a
  dictionary with the key \<^verbatim>\<open>value\<close>.\<close>

type_synonym binding = "(string \<times> string) list"

type_synonym wd_item = "(string \<times> binding) list"

record sparql_results =
  bindings :: "wd_item list option"

record sparql_json =
  results :: "sparql_results option"

text \<open>The body of the \<^verbatim>\<open>try\<close>, up to the row and its date label.\<close>

definition wikidata_item :: "iso_parser \<Rightarrow> wd_item \<Rightarrow> py_error + (string \<times> row)" where
  "wikidata_item parse item =
     (case map_of (dict_get item ''date'' []) ''value'' of
        None \<Rightarrow> Inl ValueError
      | Some date_str \<Rightarrow>
          if date_str = [] then Inl ValueError
          else
            (case fromisoformat parse (replace CHR ''Z'' ''+00:00'' date_str) of
               Inl e \<Rightarrow> Inl e
             | Inr dt \<Rightarrow>
                 (case map_of (dict_get item ''itemLabel'' []) ''value'' of
                    None \<Rightarrow> Inl ValueError
                  | Some event_text \<Rightarrow>
                      if event_text = [] \<or> startswith event_text ''Q'' then Inl ValueError
                      else
                        (let country = dict_get (dict_get item ''countryLabel'' []) ''value'' [];
                             crime_type =
                               lower (dict_get (dict_get item ''crimeTypeLabel'' []) ''value'' ''crime'');
                             url = dict_get (dict_get item ''article'' []) ''value'' []
                         in case dt of (event_year, m, d) \<Rightarrow>
                              (case date_label_of dt of
                                 Inl e \<Rightarrow> Inl e
                               | Inr date_label \<Rightarrow>
                                   Inr (date_label,
                                     \<lparr>source = ''Wikidata'', month = fmt02 m, day = fmt02 d,
                                      year_of_event = event_year, event = event_text,
                                      title = event_text, description = ''Source: Wikidata'',
                                      crime_type = crime_type, country = country, url = url,
                                      latitude = Blank, longitude = Blank, extract = [],
                                      related_topics = [], topic_page_urls = []\<rparr>))))))"

text \<open>The \<^verbatim>\<open>for\<close> loop with its \<^verbatim>\<open>except (ValueError, KeyError)\<close>; any other exception
  leaves the loop.  The state carries the two counters.\<close>

fun wikidata_loop ::
  "iso_parser \<Rightarrow> wd_item list \<Rightarrow> accum \<times> nat \<times> nat \<Rightarrow> py_error + (accum \<times> nat \<times> nat)" where
  "wikidata_loop parse [] s = Inr s"
| "wikidata_loop parse (item # items) (acc, processed_count, skipped_count) =
     (case wikidata_item parse item of
        Inr (date_label, r) \<Rightarrow>
          wikidata_loop parse items (append_record date_label r acc, processed_count + 1, skipped_count)
      | Inl e \<Rightarrow>
          if e = ValueError \<or> e = KeyError
          then wikidata_loop parse items (acc, processed_count, skipped_count + 1)
          else Inl e)"

text \<open>What the function prints: the malformed-data line, or the number of raw results
  followed by the two counters.\<close>

datatype wd_report = Malformed | Complete nat nat nat

definition process_wikidata_results ::
  "iso_parser \<Rightarrow> sparql_json option \<Rightarrow> accum \<Rightarrow> py_error + (accum \<times> wd_report)" where
  "process_wikidata_results parse data acc =
     (case data of
        None \<Rightarrow> Inr (acc, Malformed)
      | Some j \<Rightarrow>
          (case results j of
             None \<Rightarrow> Inr (acc, Malformed)
           | Some res \<Rightarrow>
               (case bindings res of
                  None \<Rightarrow> Inr (acc, Malformed)
                | Some rs \<Rightarrow>
                    (case wikidata_loop parse rs (acc, 0, 0) of
                       Inl e \<Rightarrow> Inl e
                     | Inr (acc', processed_count, skipped_count) \<Rightarrow>
                         Inr (acc', Complete (length rs) processed_count skipped_count)))))"

subsection \<open>The On-This-Day normaliser\<close>

text \<open>A list comprehension whose element expression can raise.\<close>

fun map_raise :: "('a \<Rightarrow> py_error + 'b) \<Rightarrow> 'a list \<Rightarrow> py_error + 'b list" where
  "map_raise f [] = Inr []"
| "map_raise f (x # xs) =
     (case f x of
        Inl e \<Rightarrow> Inl e
      | Inr y \<Rightarrow> (case map_raise f xs of Inl e \<Rightarrow> Inl e | Inr ys \<Rightarrow> Inr (y # ys)))"

text \<open>\<^verbatim>\<open>p["title"].replace("_", " ")\<close>\<close>

definition page_title :: "page \<Rightarrow> py_error + string" where
  "page_title p =
     (case page.title p of None \<Rightarrow> Inl KeyError | Some t \<Rightarrow> Inr (replace CHR ''_'' '' '' t))"

text \<open>\<^verbatim>\<open>p.get("content_urls", {}).get("desktop", {}).get("page", "")\<close>\<close>

definition desktop_page :: "page \<Rightarrow> string" where
  "desktop_page p =
     dict_get (dict_get (case content_urls p of None \<Rightarrow> [] | Some d \<Rightarrow> d) ''desktop'' []) ''page'' []"

definition topic_url :: "page \<Rightarrow> py_error + string" where
  "topic_url p =
     (case page_title p of Inl e \<Rightarrow> Inl e | Inr t \<Rightarrow> Inr (t @ '': '' @ desktop_page p))"

text \<open>The scan for coordinates: the first page whose \<^verbatim>\<open>coordinates\<close> is present and not
  empty.\<close>

fun first_coordinates :: "page list \<Rightarrow> (string \<times> rat) list option" where
  "first_coordinates [] = None"
| "first_coordinates (p # ps) =
     (case coordinates p of
        None \<Rightarrow> first_coordinates ps
      | Some [] \<Rightarrow> first_coordinates ps
      | Some (c # cs) \<Rightarrow> Some (c # cs))"

definition coordinate :: "(string \<times> rat) list option \<Rightarrow> string \<Rightarrow> cell" where
  "coordinate coords k =
     (case coords of
        None \<Rightarrow> Blank
      | Some c \<Rightarrow> (case map_of c k of None \<Rightarrow> Blank | Some v \<Rightarrow> Number v))"

text \<open>The slice \<^verbatim>\<open>xs[a:b]\<close> for non-negative bounds.\<close>

definition slice :: "nat \<Rightarrow> nat \<Rightarrow> 'a list \<Rightarrow> 'a list" where
  "slice a b xs = drop a (take b xs)"

text \<open>The body of the loop over the events of one day, up to the row: \<open>Inr None\<close> is
  \<^verbatim>\<open>continue\<close>.\<close>

definition onthisday_event :: "string \<Rightarrow> string \<Rightarrow> event \<Rightarrow> py_error + row option" where
  "onthisday_event mm dd ev =
     (case text ev of
        None \<Rightarrow> Inl KeyError
      | Some ev_text \<Rightarrow>
          (case CRIME_RE_search ev_text of
             None \<Rightarrow> Inr None
           | Some group1 \<Rightarrow>
               (case year ev of
                  None \<Rightarrow> Inr None
                | Some event_year \<Rightarrow>
                    if event_year < YEAR_CUTOFF then Inr None
                    else
                      (case (case pages ev of None \<Rightarrow> [] | Some ps \<Rightarrow> ps) of
                         [] \<Rightarrow> Inr None
                       | first_page # others \<Rightarrow>
                           (let ps = first_page # others;
                                related_pages = slice 1 MAX_PAGES ps;
                                coords = first_coordinates (slice 0 MAX_PAGES ps)
                            in case page_title first_page of
                                 Inl e \<Rightarrow> Inl e
                               | Inr ttl \<Rightarrow>
                                   (case map_raise page_title related_pages of
                                      Inl e \<Rightarrow> Inl e
                                    | Inr titles \<Rightarrow>
                                        (case map_raise topic_url related_pages of
                                           Inl e \<Rightarrow> Inl e
                                         | Inr topic_url_list \<Rightarrow>
                                             Inr (Some
                                               \<lparr>source = ''OnThisDay'', month = mm, day = dd,
                                                year_of_event = event_year, event = ev_text,
                                                title = ttl,
                                                description =
                                                  (case page.description first_page of
                                                     None \<Rightarrow> [] | Some x \<Rightarrow> x),
                                                crime_type = lower group1, country = [],
                                                url = desktop_page first_page,
                                                latitude = coordinate coords ''lat'',
                                                longitude = coordinate coords ''lon'',
                                                extract =
                                                  (case page.extract first_page of
                                                     None \<Rightarrow> [] | Some x \<Rightarrow> x),
                                                related_topics = join '', '' titles,
                                                topic_page_urls = join '', '' topic_url_list\<rparr>))))))))"

text \<open>The loop over the events of one day.  It has no \<^verbatim>\<open>try\<close>: an exception of the body
  leaves the loop, and \<^verbatim>\<open>main\<close>.\<close>

fun onthisday_events ::
  "string \<Rightarrow> string \<Rightarrow> string \<Rightarrow> event list \<Rightarrow> accum \<Rightarrow> py_error + accum" where
  "onthisday_events mm dd date_label [] acc = Inr acc"
| "onthisday_events mm dd date_label (ev # evs) acc =
     (case onthisday_event mm dd ev of
        Inl e \<Rightarrow> Inl e
      | Inr None \<Rightarrow> onthisday_events mm dd date_label evs acc
      | Inr (Some r) \<Rightarrow> onthisday_events mm dd date_label evs (append_record date_label r acc))"

definition feed_url :: "string \<Rightarrow> string \<Rightarrow> string" where
  "feed_url mm dd =
     ''https://api.wikimedia.org/feed/v1/wikipedia/en/onthisday/events/'' @ mm @ ''/'' @ dd"

text \<open>One day of the loop, from \<^verbatim>\<open>mm, dd = ...\<close> on.  \<open>session_get\<close> gives the decoded
  answer for a URL, or \<open>None\<close> where the request raises and the day is skipped.\<close>

definition onthisday_day :: "(string \<Rightarrow> feed option) \<Rightarrow> date \<Rightarrow> accum \<Rightarrow> py_error + accum" where
  "onthisday_day session_get dt acc =
     (case dt of (y, m, d) \<Rightarrow>
        (let mm = fmt02 m; dd = fmt02 d
         in case date_label_of dt of
              Inl e \<Rightarrow> Inl e
            | Inr date_label \<Rightarrow>
                (case session_get (feed_url mm dd) of
                   None \<Rightarrow> Inr acc
                 | Some data \<Rightarrow>
                     onthisday_events mm dd date_label
                       (case events data of None \<Rightarrow> [] | Some evs \<Rightarrow> evs) acc)))"

text \<open>\<^verbatim>\<open>date + timedelta(days=n)\<close> for \<open>n \<ge> 0\<close>, as \<open>n\<close> steps to the next day of the
  calendar.\<close>

definition next_day :: "date \<Rightarrow> date" where
  "next_day dt =
     (case dt of (y, m, d) \<Rightarrow>
        if d < days_in_month y m then (y, m, d + 1)
        else if m < 12 then (y, m + 1, 1)
        else (y + 1, 1, 1))"

definition date_plus_days :: "date \<Rightarrow> nat \<Rightarrow> date" where
  "date_plus_days dt n = (next_day ^^ n) dt"

fun onthisday_days :: "(string \<Rightarrow> feed option) \<Rightarrow> nat list \<Rightarrow> accum \<Rightarrow> py_error + accum" where
  "onthisday_days session_get [] acc = Inr acc"
| "onthisday_days session_get (day_no # day_nos) acc =
     (case onthisday_day session_get (date_plus_days (2024, 1, 1) (day_no - 1)) acc of
        Inl e \<Rightarrow> Inl e
      | Inr acc' \<Rightarrow> onthisday_days session_get day_nos acc')"

subsection \<open>The two fetch passes of main\<close>

definition GET_WIKIDATA :: bool where
  "GET_WIKIDATA = True"

definition GET_ON_THIS_DAY :: bool where
  "GET_ON_THIS_DAY = True"

text \<open>\<open>wikidata_json\<close> is what \<^verbatim>\<open>query_wikidata_crimes\<close> returns: the decoded answer, or
  \<open>None\<close> where the request failed.\<close>

definition collect ::
  "iso_parser \<Rightarrow> sparql_json option \<Rightarrow> (string \<Rightarrow> feed option) \<Rightarrow> py_error + accum" where
  "collect parse wikidata_json session_get =
     (case (if GET_WIKIDATA \<and> wikidata_json \<noteq> None
            then (case process_wikidata_results parse wikidata_json accum_empty of
                    Inl e \<Rightarrow> Inl e
                  | Inr (acc, report) \<Rightarrow> Inr acc)
            else Inr accum_empty) of
        Inl e \<Rightarrow> Inl e
      | Inr acc \<Rightarrow>
          if GET_ON_THIS_DAY then onthisday_days session_get [1..<367] acc else Inr acc)"

subsection \<open>The export block of main\<close>

text \<open>
  \<^verbatim>\<open>datetime.strptime(s, "%B %d %Y")\<close>.  The library turns the format into the regular
  expression \<^verbatim>\<open>(january|...)\s+(3[0-1]|[1-2]\d|0[1-9]|[1-9]| [1-9])\s+(\d\d\d\d)\<close>, matched
  at the start of \<open>s\<close> without regard to case; it raises when there is no match, when
  text remains after the first match, or when the fields are not a date.
\<close>

fun match_month :: "string list \<Rightarrow> int \<Rightarrow> string \<Rightarrow> (int \<times> string) option" where
  "match_month [] i s = None"
| "match_month (name # names) i s =
     (if length name \<le> length s \<and> lower (take (length name) s) = lower name
      then Some (i, drop (length name) s)
      else match_month names (i + 1) s)"

definition skip_spaces :: "string \<Rightarrow> string option" where
  "skip_spaces s =
     (case s of
        [] \<Rightarrow> None
      | c # cs \<Rightarrow> if is_space c then Some (dropWhile is_space cs) else None)"

text \<open>The ways the day alternatives match at the start of \<open>s\<close>, in the order a backtracking
  matcher tries them, each with the text left.  The last alternative of the library's
  expression, a space before one digit, only matches where the one-digit alternative
  matches after the same space, with the same day and the same text left.\<close>

definition day_alternatives :: "string \<Rightarrow> (int \<times> string) list" where
  "day_alternatives s =
     (case s of
        a # b # r \<Rightarrow>
          (if a = CHR ''3'' \<and> b \<in> set ''01'' then [(30 + digit_val b, r)] else []) @
          (if a \<in> set ''12'' \<and> is_digit b then [(10 * digit_val a + digit_val b, r)] else []) @
          (if a = CHR ''0'' \<and> b \<in> set ''123456789'' then [(digit_val b, r)] else [])
      | _ \<Rightarrow> []) @
     (case s of
        a # r \<Rightarrow> if a \<in> set ''123456789'' then [(digit_val a, r)] else []
      | [] \<Rightarrow> [])"

definition match_year :: "string \<Rightarrow> (int \<times> string) option" where
  "match_year s =
     (case s of
        a # b # c # d # r \<Rightarrow>
          if is_digit a \<and> is_digit b \<and> is_digit c \<and> is_digit d
          then Some (1000 * digit_val a + 100 * digit_val b + 10 * digit_val c + digit_val d, r)
          else None
      | _ \<Rightarrow> None)"

fun first_day_year :: "(int \<times> string) list \<Rightarrow> (int \<times> int \<times> string) option" where
  "first_day_year [] = None"
| "first_day_year ((d, r) # alts) =
     (case skip_spaces r of
        None \<Rightarrow> first_day_year alts
      | Some r' \<Rightarrow>
          (case match_year r' of
             None \<Rightarrow> first_day_year alts
           | Some (y, r'') \<Rightarrow> Some (d, y, r'')))"

definition strptime_B_d_Y :: "string \<Rightarrow> py_error + date" where
  "strptime_B_d_Y s =
     (case match_month (tl month_name) 1 s of
        None \<Rightarrow> Inl ValueError
      | Some (m, r1) \<Rightarrow>
          (case skip_spaces r1 of
             None \<Rightarrow> Inl ValueError
           | Some r2 \<Rightarrow>
               (case first_day_year (day_alternatives r2) of
                  None \<Rightarrow> Inl ValueError
                | Some (d, y, r3) \<Rightarrow> if r3 \<noteq> [] then Inl ValueError else datetime_new y m d)))"

text \<open>The key of \<^verbatim>\<open>sorted\<close>: \<^verbatim>\<open>strptime(f"{item[0]} 2024", "%B %d %Y")\<close>.\<close>

definition sort_key_of :: "string \<times> 'a \<Rightarrow> py_error + (date \<times> (string \<times> 'a))" where
  "sort_key_of item =
     (case strptime_B_d_Y (fst item @ '' 2024'') of
        Inl e \<Rightarrow> Inl e
      | Inr k \<Rightarrow> Inr (k, item))"

text \<open>\<^verbatim>\<open>dict(sorted(events_by_date.items(), key=...))\<close>: the keys are computed first, then
  the items are sorted by key, items of equal key staying in their order; the new
  dictionary has the items in sorted order.\<close>

definition sorted_events_by_date :: "(string \<times> 'a) list \<Rightarrow> py_error + (string \<times> 'a) list" where
  "sorted_events_by_date g =
     (case map_raise sort_key_of g of
        Inl e \<Rightarrow> Inl e
      | Inr keyed \<Rightarrow> Inr (map snd (sort_key fst keyed)))"

text \<open>\<^verbatim>\<open>df.sort_values(["month", "day", "year_of_event"])\<close>\<close>

definition sort_values :: "row list \<Rightarrow> row list" where
  "sort_values rs = sort_key (\<lambda>r. (month r, day r, year_of_event r)) rs"

text \<open>What the export block leaves behind: the files written, in order, each with what
  was put in it; the closing line printed; the exception that ended it, if any.  The
  file system is taken not to fail.\<close>

datatype artifact = Table "row list" | Grouped date_groups

datatype closing_line = Files_saved string string nat | Nothing_to_save

record outcome =
  files :: "(string \<times> artifact) list"
  printed :: "closing_line list"
  raised :: "py_error option"

definition export_results :: "string \<Rightarrow> accum \<Rightarrow> outcome" where
  "export_results timestamp acc =
     (if all_rows acc \<noteq> []
      then
        (let base_filename = ''crime_anniversaries_merged_'' @ timestamp;
             csv_path = ''files/'' @ base_filename @ ''.csv'';
             json_path = ''files/'' @ base_filename @ ''.json'';
             df = sort_values (all_rows acc)
         in case sorted_events_by_date (events_by_date acc) of
              Inl e \<Rightarrow> \<lparr>files = [(csv_path, Table df)], printed = [], raised = Some e\<rparr>
            | Inr g \<Rightarrow>
                \<lparr>files = [(csv_path, Table df), (json_path, Grouped g)],
                 printed = [Files_saved csv_path json_path (length df)],
                 raised = None\<rparr>)
      else \<lparr>files = [], printed = [Nothing_to_save], raised = None\<rparr>)"

definition main ::
  "iso_parser \<Rightarrow> sparql_json option \<Rightarrow> (string \<Rightarrow> feed option) \<Rightarrow> string \<Rightarrow> outcome" where
  "main parse wikidata_json session_get timestamp =
     (case collect parse wikidata_json session_get of
        Inl e \<Rightarrow> \<lparr>files = [], printed = [], raised = Some e\<rparr>
      | Inr acc \<Rightarrow> export_results timestamp acc)"

text \<open>A reference reader for the parameter \<open>parse\<close>, used in the examples: the shape
  \<^verbatim>\<open>YYYY-MM-DD\<close>, alone or followed by \<^verbatim>\<open>T00:00:00+00:00\<close>, which is what the query
  service sends once \<^verbatim>\<open>Z\<close> is replaced.\<close>

definition iso_reference :: iso_parser where
  "iso_reference s =
     (case s of
        y1 # y2 # y3 # y4 # h1 # m1 # m2 # h2 # d1 # d2 # r \<Rightarrow>
          if list_all is_digit [y1, y2, y3, y4, m1, m2, d1, d2] \<and> h1 = CHR ''-'' \<and> h2 = CHR ''-''
             \<and> (r = [] \<or> r = ''T00:00:00+00:00'')
          then Some (1000 * digit_val y1 + 100 * digit_val y2 + 10 * digit_val y3 + digit_val y4,
                     10 * digit_val m1 + digit_val m2, 10 * digit_val d1 + digit_val d2)
          else None
      | _ \<Rightarrow> None)"

section \<open>Notions used in the statements\<close>

subsection \<open>Dates and labels\<close>

text \<open>The number a decimal text denotes.\<close>

definition num_of :: "string \<Rightarrow> int" where
  "num_of s = foldl (\<lambda>a c. 10 * a + digit_val c) 0 s"

text \<open>A month and a day of that month, in the year given.\<close>

definition valid_date :: "date \<Rightarrow> bool" where
  "valid_date dt = (case dt of (y, m, d) \<Rightarrow> 1 \<le> m \<and> m \<le> 12 \<and> 1 \<le> d \<and> d \<le> days_in_month y m)"

definition month_day :: "date \<Rightarrow> int \<times> int" where
  "month_day dt = (case dt of (y, m, d) \<Rightarrow> (m, d))"

text \<open>The \<^verbatim>\<open>month\<close> and \<^verbatim>\<open>day\<close> of a record are two decimal digits each and denote a
  day of the calendar, of a leap year.\<close>

definition month_day_ok :: "row \<Rightarrow> bool" where
  "month_day_ok r =
     (length (month r) = 2 \<and> length (day r) = 2
      \<and> list_all is_digit (month r) \<and> list_all is_digit (day r)
      \<and> 1 \<le> num_of (month r) \<and> num_of (month r) \<le> 12
      \<and> 1 \<le> num_of (day r) \<and> num_of (day r) \<le> days_in_month 2024 (num_of (month r)))"

text \<open>The date label of a record: the name of its month and the number of its day.\<close>

definition row_label :: "row \<Rightarrow> string" where
  "row_label r =
     (case list_index month_name (num_of (month r)) of
        Inl e \<Rightarrow> []
      | Inr name \<Rightarrow> name @ '' '' @ str_int (num_of (day r)))"

text \<open>A key of the Date Group Map is a date label: read against the year 2024 it is a
  date, and the label of that date is the key itself.\<close>

definition canonical_label :: "string \<Rightarrow> bool" where
  "canonical_label k =
     (case strptime_B_d_Y (k @ '' 2024'') of
        Inl e \<Rightarrow> False
      | Inr dt \<Rightarrow> fst dt = 2024 \<and> date_label_of dt = Inr k)"

text \<open>A record and the label it is appended under agree.\<close>

definition dated :: "string \<times> row \<Rightarrow> bool" where
  "dated p = (row_label (snd p) = fst p \<and> month_day_ok (snd p) \<and> canonical_label (fst p))"

subsection \<open>The accumulators\<close>

text \<open>The single-entry dictionary of a record.\<close>

definition entry_of :: "row \<Rightarrow> entry" where
  "entry_of r = [(event r, payload_of r)]"

text \<open>The Date Group Map \<open>g\<close> after one entry for each record of \<open>rs\<close>, in order, each
  under the label of its record.\<close>

definition group_rows :: "date_groups \<Rightarrow> row list \<Rightarrow> date_groups" where
  "group_rows g rs = foldl (\<lambda>g r. dd_append (row_label r) (entry_of r) g) g rs"

text \<open>The records that \<open>acc'\<close> has after those of \<open>acc\<close>.\<close>

definition new_rows :: "accum \<Rightarrow> accum \<Rightarrow> row list" where
  "new_rows acc acc' = drop (length (all_rows acc)) (all_rows acc')"

text \<open>From \<open>acc\<close> to \<open>acc'\<close> the flat list has only grown at its end, and the Date Group
  Map has received exactly the entries of the new records.\<close>

definition grows_in_lockstep :: "accum \<Rightarrow> accum \<Rightarrow> bool" where
  "grows_in_lockstep acc acc' =
     (take (length (all_rows acc)) (all_rows acc') = all_rows acc
      \<and> events_by_date acc' = group_rows (events_by_date acc) (new_rows acc acc'))"

text \<open>The list under a key of the Date Group Map, empty for a key it does not have.\<close>

definition entries_under :: "string \<Rightarrow> date_groups \<Rightarrow> entry list" where
  "entries_under k g = (case map_of g k of None \<Rightarrow> [] | Some es \<Rightarrow> es)"

text \<open>The accumulators after a list of labelled records.\<close>

definition append_records :: "(string \<times> row) list \<Rightarrow> accum \<Rightarrow> accum" where
  "append_records ps acc = foldl (\<lambda>a p. append_record (fst p) (snd p) a) acc ps"

text \<open>The labelled records of the rows of a Wikidata answer whose body runs to the end,
  and the records of the events of a day that are neither skipped nor raise.\<close>

definition wikidata_accepted :: "iso_parser \<Rightarrow> wd_item list \<Rightarrow> (string \<times> row) list" where
  "wikidata_accepted parse items =
     List.map_filter (\<lambda>item. case wikidata_item parse item of Inl e \<Rightarrow> None | Inr x \<Rightarrow> Some x) items"

definition onthisday_accepted :: "string \<Rightarrow> string \<Rightarrow> event list \<Rightarrow> row list" where
  "onthisday_accepted mm dd evs =
     List.map_filter (\<lambda>ev. case onthisday_event mm dd ev of Inl e \<Rightarrow> None | Inr x \<Rightarrow> x) evs"

text \<open>The label of a Wikidata row is absent, empty or begins with the letter Q.\<close>

definition label_rejected :: "wd_item \<Rightarrow> bool" where
  "label_rejected item =
     (case map_of (dict_get item ''itemLabel'' []) ''value'' of
        None \<Rightarrow> True
      | Some [] \<Rightarrow> True
      | Some (c # cs) \<Rightarrow> c = CHR ''Q'')"

subsection \<open>The keyword filter in the words of the specification\<close>





subsection \<open>Example inputs\<close>

definition example_item :: "string \<Rightarrow> string \<Rightarrow> wd_item" where
  "example_item date_str label =
     [(''date'', [(''type'', ''literal''), (''value'', date_str)]),
      (''itemLabel'', [(''type'', ''literal''), (''value'', label)])]"

definition example_answer :: sparql_json where
  "example_answer =
     \<lparr>results = Some \<lparr>bindings = Some
        [example_item ''1995-04-19T00:00:00Z'' ''Oklahoma City bombing'',
         example_item ''1995-01-01T00:00:00Z'' ''Q12345'']\<rparr>\<rparr>"

definition example_page :: "string \<Rightarrow> page" where
  "example_page t =
     \<lparr>page.title = Some t, description = None,
      content_urls = Some [(''desktop'', [(''page'', ''https://en.wikipedia.org/wiki/'' @ t)])],
      extract = None, coordinates = None\<rparr>"

definition example_event :: event where
  "example_event =
     \<lparr>text = Some ''A bombing at the Atlanta airport kills one'', year = Some 1996,
      pages = Some [example_page ''Atlanta'', example_page ''Leap_year'']\<rparr>"

definition example_session :: "string \<Rightarrow> feed option" where
  "example_session u =
     (if u = feed_url ''02'' ''29'' then Some \<lparr>events = Some [example_event]\<rparr> else None)"

definition example_pages :: "page list" where
  "example_pages =
     [example_page ''Oklahoma_City_bombing'', example_page ''Oklahoma_City'',
      (example_page ''Timothy_McVeigh'')\<lparr>content_urls := None\<rparr>,
      example_page ''Terry_Nichols'', example_page ''Domestic_terrorism'',
      example_page ''United_States'', example_page ''1995'']"

definition example_bombing :: event where
  "example_bombing =
     \<lparr>text = Some ''Oklahoma City bombing: a truck bomb kills 168 people'', year = Some 1995,
      pages = Some example_pages\<rparr>"


definition example_unordered :: sparql_json where
  "example_unordered =
     \<lparr>results = Some \<lparr>bindings = Some
        [example_item ''1995-03-05T00:00:00Z'' ''A case of March'',
         example_item ''1996-01-31T00:00:00Z'' ''A case of January'']\<rparr>\<rparr>"

definition example_old_event :: event where
  "example_old_event =
     \<lparr>text = Some ''The assassination of the archduke'', year = Some 1850,
      pages = Some [example_page ''Archduke'']\<rparr>"


section \<open>Properties\<close>

subsection \<open>Dates, formats and labels\<close>

lemma fmt02_facts:
  "\<forall>n \<in> set [1..31]. length (fmt02 n) = 2 \<and> list_all is_digit (fmt02 n) \<and> num_of (fmt02 n) = n"
  by code_simp

lemma fmt02_day:
  assumes "1 \<le> n" "n \<le> 31"
  shows "length (fmt02 n) = 2" "list_all is_digit (fmt02 n)" "num_of (fmt02 n) = n"
proof -
  from assms have "n \<in> set [1..31]" by simp
  with fmt02_facts show "length (fmt02 n) = 2" "list_all is_digit (fmt02 n)" "num_of (fmt02 n) = n"
    by blast+
qed

lemma days_in_month_bounds:
  assumes "1 \<le> m" "m \<le> 12"
  shows "days_in_month y m \<le> days_in_month 2024 m" "days_in_month y m \<le> 31"
proof -
  from assms have "m \<in> set [1..12]" by simp
  then have "m \<in> {1, 2, 3, 4, 5, 6, 7, 8, 9, 10, 11, 12}" by (simp add: upto_rec1)
  then show "days_in_month y m \<le> days_in_month 2024 m" "days_in_month y m \<le> 31"
    by (auto simp: days_in_month_def is_leap_def)
qed

lemma datetime_new_Inl: "datetime_new y m d = Inl e \<Longrightarrow> e = ValueError"
  by (auto simp: datetime_new_def split: if_splits)

lemma fromisoformat_Inr:
  assumes "fromisoformat parse s = Inr (y, m, d)"
  shows "valid_date (y, m, d)" "1 \<le> y" "y \<le> 9999"
  using assms
  by (auto simp: fromisoformat_def datetime_new_def valid_date_def
           split: option.splits prod.splits if_splits)

lemma fromisoformat_Inl: "fromisoformat parse s = Inl e \<Longrightarrow> e = ValueError"
  by (auto simp: fromisoformat_def split: option.splits prod.splits dest: datetime_new_Inl)

lemma month_name_index:
  assumes "1 \<le> m" "m \<le> 12"
  shows "list_index month_name m = Inr (month_name ! nat m)"
  using assms by (simp add: list_index_def month_name_def)

lemma date_label_of_valid:
  assumes "valid_date (y, m, d)"
  shows "date_label_of (y, m, d) = Inr (month_name ! nat m @ '' '' @ str_int d)"
  using assms by (simp add: date_label_of_def valid_date_def month_name_index)

lemma next_day_valid: "valid_date dt \<Longrightarrow> valid_date (next_day dt)"
proof (cases dt)
  case (fields y m d)
  assume v: "valid_date dt"
  with fields have m: "1 \<le> m" "m \<le> 12" by (simp_all add: valid_date_def)
  then have "m \<in> set [1..12]" by simp
  then have "m \<in> {1, 2, 3, 4, 5, 6, 7, 8, 9, 10, 11, 12}" by (simp add: upto_rec1)
  then have one: "\<And>y'. 1 \<le> days_in_month y' m" "m < 12 \<Longrightarrow> 1 \<le> days_in_month y (m + 1)"
    by (auto simp: days_in_month_def is_leap_def)
  have jan: "1 \<le> days_in_month (y + 1) 1" by (simp add: days_in_month_def)
  from v fields m one jan show ?thesis
    by (auto simp: next_day_def valid_date_def)
qed

lemma date_plus_days_valid: "valid_date dt \<Longrightarrow> valid_date (date_plus_days dt n)"
  unfolding date_plus_days_def by (induction n) (simp_all add: next_day_valid)

lemma row_label_fmt02:
  assumes "valid_date (y, m, d)" "month r = fmt02 m" "day r = fmt02 d"
  shows "row_label r = month_name ! nat m @ '' '' @ str_int d"
proof -
  from assms(1) have m: "1 \<le> m" "m \<le> 12" and d: "1 \<le> d" "d \<le> days_in_month y m"
    by (simp_all add: valid_date_def)
  from m d days_in_month_bounds(2)[OF m, of y] have "m \<le> 31" "d \<le> 31" by linarith+
  with m d have "num_of (fmt02 m) = m" "num_of (fmt02 d) = d" by (simp_all add: fmt02_day)
  with assms m show ?thesis by (simp add: row_label_def month_name_index)
qed

subsection \<open>Appending to the accumulators\<close>

lemma keys_dd_append:
  "map fst (dd_append k x g) = (if k \<in> set (map fst g) then map fst g else map fst g @ [k])"
  by (induction g) (force simp: image_iff)+

lemma distinct_dd_append: "distinct (map fst g) \<Longrightarrow> distinct (map fst (dd_append k x g))"
  by (simp add: keys_dd_append)

lemma map_of_dd_append:
  "map_of (dd_append k x g) k' =
     (if k' = k then Some ((case map_of g k of None \<Rightarrow> [] | Some xs \<Rightarrow> xs) @ [x]) else map_of g k')"
  by (induction g) auto

lemma group_rows_snoc:
  "group_rows g (rs @ [r]) = dd_append (row_label r) (entry_of r) (group_rows g rs)"
  by (simp add: group_rows_def)

lemma group_rows_Cons:
  "group_rows g (r # rs) = group_rows (dd_append (row_label r) (entry_of r) g) rs"
  by (simp add: group_rows_def)

lemma entries_under_group_rows:
  "entries_under k (group_rows g rs) =
     entries_under k g @ map entry_of (filter (\<lambda>r. row_label r = k) rs)"
proof (induction rs rule: rev_induct)
  case Nil
  show ?case by (simp add: group_rows_def)
next
  case (snoc r rs)
  then show ?case
    by (auto simp: group_rows_snoc entries_under_def map_of_dd_append)
qed

lemma all_rows_append_record: "all_rows (append_record k r acc) = all_rows acc @ [r]"
  by (simp add: append_record_def)

lemma keys_append_record:
  "fst ` set (events_by_date (append_record k r acc)) = insert k (fst ` set (events_by_date acc))"
proof -
  have "set (map fst (events_by_date (append_record k r acc))) =
          insert k (set (map fst (events_by_date acc)))"
    by (auto simp: append_record_def keys_dd_append)
  then show ?thesis by simp
qed

lemma append_records_Nil: "append_records [] acc = acc"
  by (simp add: append_records_def)

lemma append_records_Cons:
  "append_records ((k, r) # ps) acc = append_records ps (append_record k r acc)"
  by (simp add: append_records_def)

lemma all_rows_append_records: "all_rows (append_records ps acc) = all_rows acc @ map snd ps"
  by (induction ps arbitrary: acc)
     (auto simp: append_records_Nil append_records_Cons all_rows_append_record)

lemma keys_append_records:
  "fst ` set (events_by_date (append_records ps acc)) =
     fst ` set (events_by_date acc) \<union> fst ` set ps"
proof (induction ps arbitrary: acc)
  case Nil
  show ?case by (simp add: append_records_Nil)
next
  case (Cons p ps)
  obtain k r where p: "p = (k, r)" by (cases p)
  have "fst ` set (events_by_date (append_records (p # ps) acc)) =
          fst ` set (events_by_date (append_record k r acc)) \<union> fst ` set ps"
    using Cons.IH[of "append_record k r acc"] p by (simp add: append_records_Cons)
  also have "\<dots> = insert k (fst ` set (events_by_date acc)) \<union> fst ` set ps"
    by (simp only: keys_append_record)
  finally show ?case using p by auto
qed

lemma distinct_append_records:
  "distinct (map fst (events_by_date acc)) \<Longrightarrow>
   distinct (map fst (events_by_date (append_records ps acc)))"
  by (induction ps arbitrary: acc)
     (auto simp: append_records_Nil append_records_Cons append_record_def distinct_dd_append)

lemma events_by_date_append_records:
  assumes "\<forall>p \<in> set ps. row_label (snd p) = fst p"
  shows "events_by_date (append_records ps acc) = group_rows (events_by_date acc) (map snd ps)"
  using assms
proof (induction ps arbitrary: acc)
  case Nil
  show ?case by (simp add: append_records_Nil group_rows_def)
next
  case (Cons p ps)
  obtain k r where p: "p = (k, r)" by (cases p)
  with Cons.prems have k: "row_label r = k" by simp
  from Cons.prems have "events_by_date (append_records ps (append_record k r acc)) =
      group_rows (events_by_date (append_record k r acc)) (map snd ps)"
    by (intro Cons.IH) simp
  with p k show ?case
    by (simp add: append_records_Cons group_rows_Cons append_record_def entry_of_def)
qed

lemma new_rows_append_records: "new_rows acc (append_records ps acc) = map snd ps"
  by (simp add: new_rows_def all_rows_append_records)

lemma grows_in_lockstep_append_records:
  assumes "\<forall>p \<in> set ps. row_label (snd p) = fst p"
  shows "grows_in_lockstep acc (append_records ps acc)"
  using events_by_date_append_records[OF assms, of acc]
  by (simp add: grows_in_lockstep_def new_rows_append_records all_rows_append_records)

subsection \<open>The rows of a Wikidata answer\<close>

lemma wikidata_item_Inl: "wikidata_item parse item = Inl e \<Longrightarrow> e = ValueError"
  by (auto simp: wikidata_item_def Let_def date_label_of_valid
           split: option.splits if_splits sum.splits prod.splits
           dest: fromisoformat_Inl fromisoformat_Inr(1))

lemma wikidata_item_Inr:
  assumes "wikidata_item parse item = Inr (date_label, r)"
  shows "\<exists>y m d. valid_date (y, m, d) \<and> 1 \<le> y \<and> y \<le> 9999
           \<and> date_label = month_name ! nat m @ '' '' @ str_int d
           \<and> month r = fmt02 m \<and> day r = fmt02 d \<and> year_of_event r = y"
proof -
  from assms obtain ds dt where
    ds: "map_of (dict_get item ''date'' []) ''value'' = Some ds" "ds \<noteq> []" and
    dt: "fromisoformat parse (replace CHR ''Z'' ''+00:00'' ds) = Inr dt"
    by (auto simp: wikidata_item_def split: option.splits if_splits sum.splits)
  obtain y m d where ymd: "dt = (y, m, d)" by (cases dt)
  from dt ymd have v: "valid_date (y, m, d)" "1 \<le> y" "y \<le> 9999"
    by (auto dest: fromisoformat_Inr)
  from assms ds dt ymd v(1) have
    "date_label = month_name ! nat m @ '' '' @ str_int d \<and> month r = fmt02 m \<and> day r = fmt02 d
       \<and> year_of_event r = y"
    by (auto simp: wikidata_item_def Let_def date_label_of_valid split: option.splits if_splits)
  with v show ?thesis by blast
qed

lemma wikidata_accepted_Nil: "wikidata_accepted parse [] = []"
  by (simp add: wikidata_accepted_def map_filter_simps)

lemma wikidata_accepted_Cons:
  "wikidata_accepted parse (item # items) =
     (case wikidata_item parse item of
        Inl e \<Rightarrow> wikidata_accepted parse items
      | Inr x \<Rightarrow> x # wikidata_accepted parse items)"
  by (simp add: wikidata_accepted_def map_filter_simps split: sum.splits)

lemma length_wikidata_accepted: "length (wikidata_accepted parse items) \<le> length items"
  by (induction items) (auto simp: wikidata_accepted_Nil wikidata_accepted_Cons split: sum.splits)

lemma wikidata_loop_eq:
  "wikidata_loop parse items (acc, p, s) =
     Inr (append_records (wikidata_accepted parse items) acc,
          p + length (wikidata_accepted parse items),
          s + (length items - length (wikidata_accepted parse items)))"
proof (induction items arbitrary: acc p s)
  case Nil
  show ?case by (simp add: wikidata_accepted_Nil append_records_Nil)
next
  case (Cons item items)
  show ?case
  proof (cases "wikidata_item parse item")
    case (Inl e)
    then have "e = ValueError" by (rule wikidata_item_Inl)
    with Inl Cons.IH[of acc p "s + 1"] length_wikidata_accepted[of parse items] show ?thesis
      by (simp add: wikidata_accepted_Cons Suc_diff_le)
  next
    case (Inr x)
    obtain k r where x: "x = (k, r)" by (cases x)
    with Inr Cons.IH[of "append_record k r acc" "p + 1" s] show ?thesis
      by (simp add: wikidata_accepted_Cons append_records_Cons)
  qed
qed

lemma wikidata_accepted_set:
  "x \<in> set (wikidata_accepted parse items) \<Longrightarrow> \<exists>item \<in> set items. wikidata_item parse item = Inr x"
  by (induction items) (auto simp: wikidata_accepted_Nil wikidata_accepted_Cons split: sum.splits)

subsection \<open>The counters of the Wikidata normaliser\<close>

lemma length_wikidata_accepted_filter:
  "length (wikidata_accepted parse items) =
     length (filter (\<lambda>item. \<not> isl (wikidata_item parse item)) items)"
  by (induction items) (auto simp: wikidata_accepted_Nil wikidata_accepted_Cons split: sum.splits)

lemma length_filter_isl:
  "length (filter (\<lambda>item. isl (wikidata_item parse item)) items)
     = length items - length (wikidata_accepted parse items)"
  using sum_length_filter_compl[of "\<lambda>item. isl (wikidata_item parse item)" items]
  by (simp add: length_wikidata_accepted_filter)

text \<open>
  Claim C10.  For every answer that has a \<^verbatim>\<open>results.bindings\<close> array, every reader of
  dates and every state of the accumulators, \<^verbatim>\<open>process_wikidata_results\<close> returns
  normally and each row is counted exactly once: the processed counter is the number
  of rows whose body ran to the end, the skipped counter the number of rows whose body
  raised, their sum is the length of the array, and the flat list has grown by exactly
  the processed counter, its old records untouched.
\<close>

theorem wikidata_counters:
  "\<exists>acc' processed_count skipped_count.
     process_wikidata_results parse (Some \<lparr>results = Some \<lparr>bindings = Some rs\<rparr>\<rparr>) acc
       = Inr (acc', Complete (length rs) processed_count skipped_count)
     \<and> processed_count + skipped_count = length rs
     \<and> processed_count = length (filter (\<lambda>item. \<not> isl (wikidata_item parse item)) rs)
     \<and> skipped_count = length (filter (\<lambda>item. isl (wikidata_item parse item)) rs)
     \<and> length (all_rows acc') = length (all_rows acc) + processed_count
     \<and> take (length (all_rows acc)) (all_rows acc') = all_rows acc"
  using length_wikidata_accepted[of parse rs]
  by (simp add: process_wikidata_results_def wikidata_loop_eq all_rows_append_records
        length_wikidata_accepted_filter[symmetric] length_filter_isl)

subsection \<open>The events of a day\<close>

lemma map_Inr_eq: "map Inr xs = map Inr ys \<longleftrightarrow> xs = ys"
  by (simp add: inj_map_eq_map inj_on_def)

lemma map_raise_Inr: "map_raise f xs = Inr ys \<longleftrightarrow> map f xs = map Inr ys"
proof (induction xs arbitrary: ys)
  case Nil
  show ?case by auto
next
  case (Cons x xs)
  show ?case
  proof (cases "map_raise f xs")
    case (Inl e)
    with Cons.IH have "\<And>zs. map f xs \<noteq> map Inr zs" by auto
    with Inl show ?thesis by (cases ys) (auto split: sum.splits)
  next
    case (Inr zs)
    with Cons.IH[of zs] have zs: "map f xs = map Inr zs" by simp
    from Inr zs show ?thesis by (cases ys) (auto simp: map_Inr_eq split: sum.splits)
  qed
qed

lemma map_raise_Inl:
  "map_raise f xs = Inl e \<Longrightarrow> \<exists>x \<in> set xs. f x = Inl e"
  by (induction xs) (auto split: sum.splits)

lemma onthisday_event_Some:
  assumes "onthisday_event mm dd ev = Inr (Some r)"
  obtains t g y p ps ttl titles urls where
    "text ev = Some t" "CRIME_RE_search t = Some g" "year ev = Some y" "YEAR_CUTOFF \<le> y"
    "pages ev = Some (p # ps)" "page_title p = Inr ttl"
    "map_raise page_title (slice 1 MAX_PAGES (p # ps)) = Inr titles"
    "map_raise topic_url (slice 1 MAX_PAGES (p # ps)) = Inr urls"
    "month r = mm" "day r = dd" "year_of_event r = y" "event r = t" "crime_type r = lower g"
    "title r = ttl" "related_topics r = join '', '' titles" "topic_page_urls r = join '', '' urls"
    "source r = ''OnThisDay''"
  using assms
  by (auto simp: onthisday_event_def Let_def
           split: option.splits if_splits list.splits sum.splits)

lemma onthisday_event_Inl: "onthisday_event mm dd ev = Inl e \<Longrightarrow> e = KeyError"
  by (auto simp: onthisday_event_def Let_def page_title_def topic_url_def
           split: option.splits if_splits list.splits sum.splits
           dest!: map_raise_Inl)

lemma onthisday_accepted_Nil: "onthisday_accepted mm dd [] = []"
  by (simp add: onthisday_accepted_def map_filter_simps)

lemma onthisday_accepted_Cons:
  "onthisday_accepted mm dd (ev # evs) =
     (case onthisday_event mm dd ev of
        Inl e \<Rightarrow> onthisday_accepted mm dd evs
      | Inr None \<Rightarrow> onthisday_accepted mm dd evs
      | Inr (Some r) \<Rightarrow> r # onthisday_accepted mm dd evs)"
  by (simp add: onthisday_accepted_def map_filter_simps split: sum.splits option.splits)

lemma onthisday_events_Inr:
  assumes "onthisday_events mm dd date_label evs acc = Inr acc'"
  shows "acc' = append_records (map (Pair date_label) (onthisday_accepted mm dd evs)) acc"
  using assms
proof (induction evs arbitrary: acc)
  case Nil
  then show ?case by (simp add: onthisday_accepted_Nil append_records_Nil)
next
  case (Cons ev evs)
  then show ?case
    by (auto simp: onthisday_accepted_Cons append_records_Cons split: sum.splits option.splits)
qed

lemma onthisday_accepted_set:
  "r \<in> set (onthisday_accepted mm dd evs) \<Longrightarrow> \<exists>ev \<in> set evs. onthisday_event mm dd ev = Inr (Some r)"
  by (induction evs) (auto simp: onthisday_accepted_Nil onthisday_accepted_Cons split: sum.splits option.splits)

subsection \<open>Reading a date label back\<close>

lemma match_month_1: "match_month (tl month_name) 1 (''January'' @ rest) = Some (1, rest)"
  by (simp add: month_name_def lower_def lower_char_def is_ascii_def)

lemma match_month_2: "match_month (tl month_name) 1 (''February'' @ rest) = Some (2, rest)"
  by (simp add: month_name_def lower_def lower_char_def is_ascii_def)

lemma match_month_3: "match_month (tl month_name) 1 (''March'' @ rest) = Some (3, rest)"
  by (simp add: month_name_def lower_def lower_char_def is_ascii_def)

lemma match_month_4: "match_month (tl month_name) 1 (''April'' @ rest) = Some (4, rest)"
  by (simp add: month_name_def lower_def lower_char_def is_ascii_def)

lemma match_month_5: "match_month (tl month_name) 1 (''May'' @ rest) = Some (5, rest)"
  by (simp add: month_name_def lower_def lower_char_def is_ascii_def)

lemma match_month_6: "match_month (tl month_name) 1 (''June'' @ rest) = Some (6, rest)"
  by (simp add: month_name_def lower_def lower_char_def is_ascii_def)

lemma match_month_7: "match_month (tl month_name) 1 (''July'' @ rest) = Some (7, rest)"
  by (simp add: month_name_def lower_def lower_char_def is_ascii_def)

lemma match_month_8: "match_month (tl month_name) 1 (''August'' @ rest) = Some (8, rest)"
  by (simp add: month_name_def lower_def lower_char_def is_ascii_def)

lemma match_month_9: "match_month (tl month_name) 1 (''September'' @ rest) = Some (9, rest)"
  by (simp add: month_name_def lower_def lower_char_def is_ascii_def)

lemma match_month_10: "match_month (tl month_name) 1 (''October'' @ rest) = Some (10, rest)"
  by (simp add: month_name_def lower_def lower_char_def is_ascii_def)

lemma match_month_11: "match_month (tl month_name) 1 (''November'' @ rest) = Some (11, rest)"
  by (simp add: month_name_def lower_def lower_char_def is_ascii_def)

lemma match_month_12: "match_month (tl month_name) 1 (''December'' @ rest) = Some (12, rest)"
  by (simp add: month_name_def lower_def lower_char_def is_ascii_def)

lemma match_month_name:
  assumes "1 \<le> m" "m \<le> 12"
  shows "match_month (tl month_name) 1 (month_name ! nat m @ rest) = Some (m, rest)"
proof -
  from assms have "m \<in> set [1..12]" by simp
  then have "m \<in> {1, 2, 3, 4, 5, 6, 7, 8, 9, 10, 11, 12}" by (simp add: upto_rec1)
  then consider "m = 1" | "m = 2" | "m = 3" | "m = 4" | "m = 5" | "m = 6" | "m = 7" | "m = 8"
    | "m = 9" | "m = 10" | "m = 11" | "m = 12" by auto
  then show ?thesis
  proof cases
    case 1 then show ?thesis using match_month_1[of rest] by (simp add: month_name_def)
  next
    case 2 then show ?thesis using match_month_2[of rest] by (simp add: month_name_def)
  next
    case 3 then show ?thesis using match_month_3[of rest] by (simp add: month_name_def)
  next
    case 4 then show ?thesis using match_month_4[of rest] by (simp add: month_name_def)
  next
    case 5 then show ?thesis using match_month_5[of rest] by (simp add: month_name_def)
  next
    case 6 then show ?thesis using match_month_6[of rest] by (simp add: month_name_def)
  next
    case 7 then show ?thesis using match_month_7[of rest] by (simp add: month_name_def)
  next
    case 8 then show ?thesis using match_month_8[of rest] by (simp add: month_name_def)
  next
    case 9 then show ?thesis using match_month_9[of rest] by (simp add: month_name_def)
  next
    case 10 then show ?thesis using match_month_10[of rest] by (simp add: month_name_def)
  next
    case 11 then show ?thesis using match_month_11[of rest] by (simp add: month_name_def)
  next
    case 12 then show ?thesis using match_month_12[of rest] by (simp add: month_name_def)
  qed
qed

lemma day_year_facts:
  "\<forall>d \<in> set [1..31].
     (case skip_spaces ('' '' @ str_int d @ '' 2024'') of
        None \<Rightarrow> None
      | Some r2 \<Rightarrow> first_day_year (day_alternatives r2)) = Some (d, 2024, [])"
  by code_simp

lemma strptime_label:
  assumes "1 \<le> m" "m \<le> 12" "1 \<le> d" "d \<le> days_in_month 2024 m"
  shows "strptime_B_d_Y ((month_name ! nat m @ '' '' @ str_int d) @ '' 2024'') = Inr (2024, m, d)"
proof -
  from assms days_in_month_bounds(2)[of m 2024] have "d \<in> set [1..31]" by simp
  with day_year_facts have
    dy: "(case skip_spaces ('' '' @ str_int d @ '' 2024'') of
            None \<Rightarrow> None
          | Some r2 \<Rightarrow> first_day_year (day_alternatives r2)) = Some (d, 2024, [])"
    by blast
  have mm: "match_month (tl month_name) 1 (month_name ! nat m @ ('' '' @ str_int d @ '' 2024''))
              = Some (m, '' '' @ str_int d @ '' 2024'')"
    using assms(1,2) by (rule match_month_name)
  have dn: "datetime_new 2024 m d = Inr (2024, m, d)"
    using assms by (simp add: datetime_new_def)
  from dy obtain r2 where r2: "skip_spaces ('' '' @ str_int d @ '' 2024'') = Some r2"
    "first_day_year (day_alternatives r2) = Some (d, 2024, [])"
    by (auto split: option.splits)
  have "strptime_B_d_Y (month_name ! nat m @ ('' '' @ str_int d @ '' 2024'')) = Inr (2024, m, d)"
    unfolding strptime_B_d_Y_def mm using r2 dn by simp
  then show ?thesis by simp
qed

lemma canonical_label_valid:
  assumes "valid_date (y, m, d)"
  shows "canonical_label (month_name ! nat m @ '' '' @ str_int d)"
proof -
  from assms have m: "1 \<le> m" "m \<le> 12" and d: "1 \<le> d" "d \<le> days_in_month y m"
    by (simp_all add: valid_date_def)
  from d days_in_month_bounds(1)[OF m, of y] have d24: "d \<le> days_in_month 2024 m" by linarith
  with m d have "valid_date (2024, m, d)" by (simp add: valid_date_def)
  then have "date_label_of (2024, m, d) = Inr (month_name ! nat m @ '' '' @ str_int d)"
    by (rule date_label_of_valid)
  with strptime_label[OF m d(1) d24] show ?thesis
    by (simp add: canonical_label_def)
qed

lemma month_day_ok_fmt02:
  assumes "valid_date (y, m, d)" "month r = fmt02 m" "day r = fmt02 d"
  shows "month_day_ok r"
proof -
  from assms(1) have m: "1 \<le> m" "m \<le> 12" and d: "1 \<le> d" "d \<le> days_in_month y m"
    by (simp_all add: valid_date_def)
  from d days_in_month_bounds[OF m, of y] have d24: "d \<le> days_in_month 2024 m" "d \<le> 31"
    by linarith+
  from m have "m \<le> 31" by simp
  with m d d24 assms(2,3) show ?thesis
    by (simp add: month_day_ok_def fmt02_day)
qed

lemma dated_valid:
  assumes "valid_date (y, m, d)" "month r = fmt02 m" "day r = fmt02 d"
    "k = month_name ! nat m @ '' '' @ str_int d"
  shows "dated (k, r)"
proof -
  have "row_label r = k" using row_label_fmt02[OF assms(1-3)] assms(4) by simp
  moreover have "canonical_label k" using canonical_label_valid[OF assms(1)] assms(4) by simp
  moreover have "month_day_ok r" using assms(1-3) by (rule month_day_ok_fmt02)
  ultimately show ?thesis by (simp add: dated_def)
qed

subsection \<open>What the normalisers append\<close>

lemma wikidata_accepted_dated:
  assumes "p \<in> set (wikidata_accepted parse items)"
  shows "dated p \<and> 1 \<le> year_of_event (snd p) \<and> year_of_event (snd p) \<le> 9999"
proof -
  obtain k r where p: "p = (k, r)" by (cases p)
  from assms obtain item where "wikidata_item parse item = Inr p"
    by (auto dest: wikidata_accepted_set)
  with p have "wikidata_item parse item = Inr (k, r)" by simp
  from wikidata_item_Inr[OF this] obtain y m d where
    "valid_date (y, m, d)" "1 \<le> y" "y \<le> 9999" "k = month_name ! nat m @ '' '' @ str_int d"
    "month r = fmt02 m" "day r = fmt02 d" "year_of_event r = y"
    by blast
  with p show ?thesis by (simp add: dated_valid)
qed

lemma process_wikidata_results_appends:
  assumes "process_wikidata_results parse data acc = Inr (acc', report)"
  shows "\<exists>ps. acc' = append_records ps acc
            \<and> (\<forall>p \<in> set ps. dated p \<and> 1 \<le> year_of_event (snd p) \<and> year_of_event (snd p) \<le> 9999)"
proof (cases "\<exists>j res rs. data = Some j \<and> results j = Some res \<and> bindings res = Some rs")
  case True
  then obtain j res rs where "data = Some j" "results j = Some res" "bindings res = Some rs"
    by blast
  with assms have "acc' = append_records (wikidata_accepted parse rs) acc"
    by (simp add: process_wikidata_results_def wikidata_loop_eq)
  with wikidata_accepted_dated show ?thesis by blast
next
  case False
  with assms have "acc' = append_records [] acc"
    by (auto simp: process_wikidata_results_def append_records_Nil split: option.splits)
  then show ?thesis by (intro exI[of _ "[]"]) simp
qed

lemma onthisday_day_appends:
  assumes "valid_date dt" "onthisday_day session_get dt acc = Inr acc'"
  shows "\<exists>ps. acc' = append_records ps acc
            \<and> (\<forall>p \<in> set ps. dated p \<and> YEAR_CUTOFF \<le> year_of_event (snd p))"
proof -
  obtain y m d where dt: "dt = (y, m, d)" by (cases dt)
  define k where "k = month_name ! nat m @ '' '' @ str_int d"
  from assms(1) dt have lbl: "date_label_of (y, m, d) = Inr k"
    by (simp add: date_label_of_valid k_def)
  show ?thesis
  proof (cases "session_get (feed_url (fmt02 m) (fmt02 d))")
    case None
    with assms(2) dt lbl have "acc' = append_records [] acc"
      by (simp add: onthisday_day_def Let_def append_records_Nil)
    then show ?thesis by (intro exI[of _ "[]"]) simp
  next
    case (Some data)
    define evs where "evs = (case events data of None \<Rightarrow> [] | Some evs \<Rightarrow> evs)"
    from assms(2) dt lbl Some have "onthisday_events (fmt02 m) (fmt02 d) k evs acc = Inr acc'"
      by (simp add: onthisday_day_def Let_def evs_def)
    then have eq: "acc' = append_records (map (Pair k) (onthisday_accepted (fmt02 m) (fmt02 d) evs)) acc"
      by (rule onthisday_events_Inr)
    have "dated (k, r) \<and> YEAR_CUTOFF \<le> year_of_event r"
      if "r \<in> set (onthisday_accepted (fmt02 m) (fmt02 d) evs)" for r
    proof -
      from that obtain ev where "onthisday_event (fmt02 m) (fmt02 d) ev = Inr (Some r)"
        by (auto dest: onthisday_accepted_set)
      then have "month r = fmt02 m" "day r = fmt02 d" "YEAR_CUTOFF \<le> year_of_event r"
        by (auto elim!: onthisday_event_Some)
      with assms(1) dt show ?thesis by (simp add: dated_valid k_def)
    qed
    with eq show ?thesis by (intro exI[of _ "map (Pair k) (onthisday_accepted (fmt02 m) (fmt02 d) evs)"]) auto
  qed
qed

lemma append_records_append:
  "append_records (ps @ qs) acc = append_records qs (append_records ps acc)"
  by (simp add: append_records_def)

lemma onthisday_days_appends:
  assumes "onthisday_days session_get day_nos acc = Inr acc'"
  shows "\<exists>ps. acc' = append_records ps acc
            \<and> (\<forall>p \<in> set ps. dated p \<and> YEAR_CUTOFF \<le> year_of_event (snd p))"
  using assms
proof (induction day_nos arbitrary: acc)
  case Nil
  then have "acc' = append_records [] acc" by (simp add: append_records_Nil)
  then show ?case by (intro exI[of _ "[]"]) simp
next
  case (Cons n ns)
  have v: "valid_date (date_plus_days (2024, 1, 1) (n - 1))"
    by (rule date_plus_days_valid) (simp add: valid_date_def days_in_month_def)
  from Cons.prems obtain acc1 where
    one: "onthisday_day session_get (date_plus_days (2024, 1, 1) (n - 1)) acc = Inr acc1" and
    rest: "onthisday_days session_get ns acc1 = Inr acc'"
    by (auto split: sum.splits)
  from onthisday_day_appends[OF v one] obtain ps where
    ps: "acc1 = append_records ps acc"
      "\<forall>p \<in> set ps. dated p \<and> YEAR_CUTOFF \<le> year_of_event (snd p)"
    by blast
  from Cons.IH[OF rest] obtain qs where
    qs: "acc' = append_records qs acc1"
      "\<forall>p \<in> set qs. dated p \<and> YEAR_CUTOFF \<le> year_of_event (snd p)"
    by blast
  from ps qs have "acc' = append_records (ps @ qs) acc" by (simp add: append_records_append)
  moreover from ps qs have "\<forall>p \<in> set (ps @ qs). dated p \<and> YEAR_CUTOFF \<le> year_of_event (snd p)"
    by auto
  ultimately show ?case by blast
qed

lemma collect_appends:
  assumes "collect parse wikidata_json session_get = Inr acc"
  shows "\<exists>ps. acc = append_records ps accum_empty \<and> (\<forall>p \<in> set ps. dated p)"
proof -
  from assms obtain acc1 where
    first: "acc1 = accum_empty \<or> (\<exists>report. process_wikidata_results parse wikidata_json accum_empty = Inr (acc1, report))" and
    second: "onthisday_days session_get [1..<367] acc1 = Inr acc"
    by (auto simp: collect_def GET_WIKIDATA_def GET_ON_THIS_DAY_def split: sum.splits if_splits)
  from first obtain ps where ps: "acc1 = append_records ps accum_empty" "\<forall>p \<in> set ps. dated p"
  proof
    assume "acc1 = accum_empty"
    then have "acc1 = append_records [] accum_empty" by (simp add: append_records_Nil)
    then show ?thesis using that[of "[]"] by simp
  next
    assume "\<exists>report. process_wikidata_results parse wikidata_json accum_empty = Inr (acc1, report)"
    then obtain report where "process_wikidata_results parse wikidata_json accum_empty = Inr (acc1, report)"
      by blast
    from process_wikidata_results_appends[OF this] show ?thesis using that by blast
  qed
  from onthisday_days_appends[OF second] obtain qs where
    qs: "acc = append_records qs acc1" "\<forall>p \<in> set qs. dated p"
    by blast
  from ps qs have "acc = append_records (ps @ qs) accum_empty" by (simp add: append_records_append)
  moreover from ps qs have "\<forall>p \<in> set (ps @ qs). dated p" by auto
  ultimately show ?thesis by blast
qed

lemma wikidata_item_year:
  assumes "wikidata_item parse item = Inr (k, r)"
  shows "1 \<le> year_of_event r \<and> year_of_event r \<le> 9999
         \<and> (\<exists>date_str m d.
                map_of (dict_get item ''date'' []) ''value'' = Some date_str
                \<and> fromisoformat parse (replace CHR ''Z'' ''+00:00'' date_str)
                     = Inr (year_of_event r, m, d))"
proof -
  from assms obtain ds dt where
    ds: "map_of (dict_get item ''date'' []) ''value'' = Some ds" "ds \<noteq> []" and
    dt: "fromisoformat parse (replace CHR ''Z'' ''+00:00'' ds) = Inr dt"
    by (auto simp: wikidata_item_def split: option.splits if_splits sum.splits)
  obtain y m d where ymd: "dt = (y, m, d)" by (cases dt)
  from dt ymd have v: "valid_date (y, m, d)" "1 \<le> y" "y \<le> 9999"
    by (auto dest: fromisoformat_Inr)
  from assms ds dt ymd v(1) have "year_of_event r = y"
    by (auto simp: wikidata_item_def Let_def date_label_of_valid split: option.splits if_splits)
  with ds(1) dt ymd v show ?thesis by blast
qed

lemma onthisday_day_sources:
  assumes "onthisday_day session_get dt acc = Inr acc'"
  shows "\<exists>ps. acc' = append_records ps acc
            \<and> (\<forall>p \<in> set ps. \<exists>u data ev mm dd.
                   session_get u = Some data
                   \<and> ev \<in> set (case events data of None \<Rightarrow> [] | Some evs \<Rightarrow> evs)
                   \<and> onthisday_event mm dd ev = Inr (Some (snd p)))"
proof -
  obtain y m d where dt: "dt = (y, m, d)" by (cases dt)
  from assms dt obtain k where lbl: "date_label_of (y, m, d) = Inr k"
    by (auto simp: onthisday_day_def Let_def split: sum.splits)
  show ?thesis
  proof (cases "session_get (feed_url (fmt02 m) (fmt02 d))")
    case None
    with assms dt lbl have "acc' = append_records [] acc"
      by (simp add: onthisday_day_def Let_def append_records_Nil)
    then show ?thesis by (intro exI[of _ "[]"]) simp
  next
    case (Some data)
    define evs where "evs = (case events data of None \<Rightarrow> [] | Some evs \<Rightarrow> evs)"
    from assms dt lbl Some have "onthisday_events (fmt02 m) (fmt02 d) k evs acc = Inr acc'"
      by (simp add: onthisday_day_def Let_def evs_def)
    then have eq: "acc' = append_records (map (Pair k) (onthisday_accepted (fmt02 m) (fmt02 d) evs)) acc"
      by (rule onthisday_events_Inr)
    have "\<exists>u data ev mm dd.
            session_get u = Some data
            \<and> ev \<in> set (case events data of None \<Rightarrow> [] | Some evs \<Rightarrow> evs)
            \<and> onthisday_event mm dd ev = Inr (Some r)"
      if "r \<in> set (onthisday_accepted (fmt02 m) (fmt02 d) evs)" for r
    proof -
      from that obtain ev where "ev \<in> set evs" "onthisday_event (fmt02 m) (fmt02 d) ev = Inr (Some r)"
        by (auto dest: onthisday_accepted_set)
      with Some show ?thesis unfolding evs_def by blast
    qed
    with eq show ?thesis
      by (intro exI[of _ "map (Pair k) (onthisday_accepted (fmt02 m) (fmt02 d) evs)"]) auto
  qed
qed

lemma onthisday_days_sources:
  assumes "onthisday_days session_get day_nos acc = Inr acc'"
  shows "\<exists>ps. acc' = append_records ps acc
            \<and> (\<forall>p \<in> set ps. \<exists>u data ev mm dd.
                   session_get u = Some data
                   \<and> ev \<in> set (case events data of None \<Rightarrow> [] | Some evs \<Rightarrow> evs)
                   \<and> onthisday_event mm dd ev = Inr (Some (snd p)))"
  using assms
proof (induction day_nos arbitrary: acc)
  case Nil
  then have "acc' = append_records [] acc" by (simp add: append_records_Nil)
  then show ?case by (intro exI[of _ "[]"]) simp
next
  case (Cons n ns)
  from Cons.prems obtain acc1 where
    one: "onthisday_day session_get (date_plus_days (2024, 1, 1) (n - 1)) acc = Inr acc1" and
    rest: "onthisday_days session_get ns acc1 = Inr acc'"
    by (auto split: sum.splits)
  from onthisday_day_sources[OF one] obtain ps where
    ps: "acc1 = append_records ps acc"
      "\<forall>p \<in> set ps. \<exists>u data ev mm dd.
                   session_get u = Some data
                   \<and> ev \<in> set (case events data of None \<Rightarrow> [] | Some evs \<Rightarrow> evs)
                   \<and> onthisday_event mm dd ev = Inr (Some (snd p))"
    by blast
  from Cons.IH[OF rest] obtain qs where
    qs: "acc' = append_records qs acc1"
      "\<forall>p \<in> set qs. \<exists>u data ev mm dd.
                   session_get u = Some data
                   \<and> ev \<in> set (case events data of None \<Rightarrow> [] | Some evs \<Rightarrow> evs)
                   \<and> onthisday_event mm dd ev = Inr (Some (snd p))"
    by blast
  from ps qs have "acc' = append_records (ps @ qs) acc" by (simp add: append_records_append)
  moreover from ps(2) qs(2) have "\<forall>p \<in> set (ps @ qs). \<exists>u data ev mm dd.
                   session_get u = Some data
                   \<and> ev \<in> set (case events data of None \<Rightarrow> [] | Some evs \<Rightarrow> evs)
                   \<and> onthisday_event mm dd ev = Inr (Some (snd p))"
    by (simp add: ball_Un)
  ultimately show ?case by blast
qed

lemma onthisday_event_year:
  assumes "onthisday_event mm dd ev = Inr (Some r)"
  shows "year ev = Some (year_of_event r) \<and> YEAR_CUTOFF \<le> year_of_event r"
  using assms by (elim onthisday_event_Some) simp

lemma process_wikidata_results_sources:
  assumes "process_wikidata_results parse data acc = Inr (acc', report)"
    "r \<in> set (new_rows acc acc')"
  shows "\<exists>j res rs item k. data = Some j \<and> results j = Some res \<and> bindings res = Some rs
            \<and> item \<in> set rs \<and> wikidata_item parse item = Inr (k, r)"
proof (cases "\<exists>j res rs. data = Some j \<and> results j = Some res \<and> bindings res = Some rs")
  case True
  then obtain j res rs where d: "data = Some j" "results j = Some res" "bindings res = Some rs"
    by blast
  with assms(1) have "acc' = append_records (wikidata_accepted parse rs) acc"
    by (simp add: process_wikidata_results_def wikidata_loop_eq)
  with assms(2) have "r \<in> snd ` set (wikidata_accepted parse rs)"
    by (simp add: new_rows_append_records)
  then obtain k where "(k, r) \<in> set (wikidata_accepted parse rs)" by auto
  from wikidata_accepted_set[OF this] d show ?thesis by blast
next
  case False
  with assms(1) have "acc' = acc"
    by (auto simp: process_wikidata_results_def split: option.splits)
  with assms(2) show ?thesis by (simp add: new_rows_def)
qed

subsection \<open>Lockstep, years, months and days\<close>

text \<open>
  Claim C1.  Whatever the input, a batch that runs to its end, in the Wikidata
  normaliser or in the On-This-Day loop, leaves the two accumulators grown in lockstep:
  the flat list keeps its old records and, going through the records appended to it in
  order, the Date Group Map has received for each one exactly one single-entry
  dictionary \<^verbatim>\<open>{event: payload}\<close> under the date label of the record's month and day.
  In particular the accumulators that the two fetch passes of \<^verbatim>\<open>main\<close> build from
  nothing are in lockstep as a whole.  Hence, under every label, the entries appended to
  the Date Group Map are, one for one and in order, those of the appended records with
  that label.
\<close>

theorem lockstep_accumulators:
  "(\<forall>acc' report. process_wikidata_results parse data acc = Inr (acc', report)
        \<longrightarrow> grows_in_lockstep acc acc')
   \<and> (\<forall>acc'. onthisday_days session_get day_nos acc = Inr acc' \<longrightarrow> grows_in_lockstep acc acc')
   \<and> (\<forall>acc'. collect parse wikidata_json session_get = Inr acc'
         \<longrightarrow> grows_in_lockstep accum_empty acc')
   \<and> (\<forall>acc'. grows_in_lockstep acc acc' \<longrightarrow>
         (\<forall>k. entries_under k (events_by_date acc') =
                entries_under k (events_by_date acc)
                  @ map (\<lambda>r. [(event r, payload_of r)])
                        (filter (\<lambda>r. row_label r = k) (new_rows acc acc'))))"
proof (intro conjI allI impI)
  fix acc'
  assume "collect parse wikidata_json session_get = Inr acc'"
  from collect_appends[OF this] obtain ps where
    "acc' = append_records ps accum_empty" "\<forall>p \<in> set ps. row_label (snd p) = fst p"
    by (auto simp: dated_def)
  then show "grows_in_lockstep accum_empty acc'" by (simp add: grows_in_lockstep_append_records)
next
  fix acc' report
  assume "process_wikidata_results parse data acc = Inr (acc', report)"
  from process_wikidata_results_appends[OF this] obtain ps where
    "acc' = append_records ps acc" "\<forall>p \<in> set ps. row_label (snd p) = fst p"
    by (auto simp: dated_def)
  then show "grows_in_lockstep acc acc'" by (simp add: grows_in_lockstep_append_records)
next
  fix acc'
  assume "onthisday_days session_get day_nos acc = Inr acc'"
  from onthisday_days_appends[OF this] obtain ps where
    "acc' = append_records ps acc" "\<forall>p \<in> set ps. row_label (snd p) = fst p"
    by (auto simp: dated_def)
  then show "grows_in_lockstep acc acc'" by (simp add: grows_in_lockstep_append_records)
next
  fix acc' k
  assume "grows_in_lockstep acc acc'"
  then have "events_by_date acc' = group_rows (events_by_date acc) (new_rows acc acc')"
    by (simp add: grows_in_lockstep_def)
  then show "entries_under k (events_by_date acc') =
      entries_under k (events_by_date acc)
        @ map (\<lambda>r. [(event r, payload_of r)]) (filter (\<lambda>r. row_label r = k) (new_rows acc acc'))"
    using entries_under_group_rows[of k "events_by_date acc" "new_rows acc acc'"]
    by (simp add: entry_of_def[abs_def])
qed

text \<open>
  Claim C2, as amended.  An On-This-Day event is accepted only with a year that is
  present and at or above \<^verbatim>\<open>YEAR_CUTOFF\<close>, and the record carries that year as its
  \<^verbatim>\<open>year_of_event\<close>; an event that has a text and whose year is absent or below the
  cutoff is passed over, and nothing is appended for it.  Hence every record that the
  On-This-Day loop appends is the record of an event of an answer of the feed, carries
  the year of that event, and this year is at or above the cutoff.  The Wikidata
  normaliser applies no cutoff of its own (the cutoff is the \<^verbatim>\<open>FILTER\<close> of the query): a
  row is accepted with the year of its date, as \<^verbatim>\<open>fromisoformat\<close> reads it once \<^verbatim>\<open>Z\<close> is
  replaced, as its \<^verbatim>\<open>year_of_event\<close>, an integer between 1 and 9999, and every record
  that the normaliser appends is the record of such a row of the answer.
\<close>

theorem year_cutoff_by_source:
  "(\<forall>r. onthisday_event mm dd ev = Inr (Some r) \<longrightarrow>
        year ev = Some (year_of_event r) \<and> YEAR_CUTOFF \<le> year_of_event r)
   \<and> (text ev \<noteq> None \<and> (case year ev of None \<Rightarrow> True | Some y \<Rightarrow> y < YEAR_CUTOFF) \<longrightarrow>
        onthisday_event mm dd ev = Inr None
        \<and> onthisday_events mm dd date_label [ev] acc = Inr acc)
   \<and> (\<forall>acc'. onthisday_days session_get day_nos acc = Inr acc' \<longrightarrow>
        (\<forall>r \<in> set (new_rows acc acc').
            YEAR_CUTOFF \<le> year_of_event r
            \<and> (\<exists>u feed_data e m d.
                  session_get u = Some feed_data
                  \<and> e \<in> set (case events feed_data of None \<Rightarrow> [] | Some evs \<Rightarrow> evs)
                  \<and> onthisday_event m d e = Inr (Some r)
                  \<and> year e = Some (year_of_event r))))
   \<and> (\<forall>k r. wikidata_item parse item = Inr (k, r) \<longrightarrow>
        1 \<le> year_of_event r \<and> year_of_event r \<le> 9999
        \<and> (\<exists>date_str m d.
              map_of (dict_get item ''date'' []) ''value'' = Some date_str
              \<and> fromisoformat parse (replace CHR ''Z'' ''+00:00'' date_str)
                   = Inr (year_of_event r, m, d)))
   \<and> (\<forall>acc' report. process_wikidata_results parse data acc = Inr (acc', report) \<longrightarrow>
        (\<forall>r \<in> set (new_rows acc acc').
            1 \<le> year_of_event r \<and> year_of_event r \<le> 9999
            \<and> (\<exists>j res rs row k date_str m d.
                  data = Some j \<and> results j = Some res \<and> bindings res = Some rs
                  \<and> row \<in> set rs \<and> wikidata_item parse row = Inr (k, r)
                  \<and> map_of (dict_get row ''date'' []) ''value'' = Some date_str
                  \<and> fromisoformat parse (replace CHR ''Z'' ''+00:00'' date_str)
                       = Inr (year_of_event r, m, d))))"
proof (intro conjI allI impI ballI)
  fix r
  assume "onthisday_event mm dd ev = Inr (Some r)"
  from onthisday_event_year[OF this]
  show "year ev = Some (year_of_event r)" "YEAR_CUTOFF \<le> year_of_event r" by simp_all
next
  assume a: "text ev \<noteq> None \<and> (case year ev of None \<Rightarrow> True | Some y \<Rightarrow> y < YEAR_CUTOFF)"
  then show n: "onthisday_event mm dd ev = Inr None"
    by (auto simp: onthisday_event_def split: option.splits)
  then show "onthisday_events mm dd date_label [ev] acc = Inr acc" by simp
next
  fix acc' r
  assume run: "onthisday_days session_get day_nos acc = Inr acc'" and r: "r \<in> set (new_rows acc acc')"
  from onthisday_days_sources[OF run] obtain ps where
    ps: "acc' = append_records ps acc"
      "\<forall>p \<in> set ps. \<exists>u data ev mm dd.
                   session_get u = Some data
                   \<and> ev \<in> set (case events data of None \<Rightarrow> [] | Some evs \<Rightarrow> evs)
                   \<and> onthisday_event mm dd ev = Inr (Some (snd p))"
    by blast
  from r ps(1) obtain p where "p \<in> set ps" "r = snd p"
    by (auto simp: new_rows_append_records)
  with ps(2) obtain u feed_data e m d where
    e: "session_get u = Some feed_data"
       "e \<in> set (case events feed_data of None \<Rightarrow> [] | Some evs \<Rightarrow> evs)"
       "onthisday_event m d e = Inr (Some r)"
    by blast
  from onthisday_event_year[OF e(3)] have y: "year e = Some (year_of_event r)"
    "YEAR_CUTOFF \<le> year_of_event r" by simp_all
  from y(2) show "YEAR_CUTOFF \<le> year_of_event r" .
  from e y(1) show "\<exists>u feed_data e m d.
                  session_get u = Some feed_data
                  \<and> e \<in> set (case events feed_data of None \<Rightarrow> [] | Some evs \<Rightarrow> evs)
                  \<and> onthisday_event m d e = Inr (Some r)
                  \<and> year e = Some (year_of_event r)"
    by blast
next
  fix k r
  assume "wikidata_item parse item = Inr (k, r)"
  from wikidata_item_year[OF this]
  show "1 \<le> year_of_event r" "year_of_event r \<le> 9999"
    "\<exists>date_str m d.
              map_of (dict_get item ''date'' []) ''value'' = Some date_str
              \<and> fromisoformat parse (replace CHR ''Z'' ''+00:00'' date_str)
                   = Inr (year_of_event r, m, d)"
    by simp_all
next
  fix acc' report r
  assume run: "process_wikidata_results parse data acc = Inr (acc', report)"
    and r: "r \<in> set (new_rows acc acc')"
  from process_wikidata_results_sources[OF run r] obtain j res rs row k where
    s: "data = Some j" "results j = Some res" "bindings res = Some rs" "row \<in> set rs"
       "wikidata_item parse row = Inr (k, r)"
    by blast
  from wikidata_item_year[OF s(5)] obtain date_str m d where
    y: "1 \<le> year_of_event r" "year_of_event r \<le> 9999"
       "map_of (dict_get row ''date'' []) ''value'' = Some date_str"
       "fromisoformat parse (replace CHR ''Z'' ''+00:00'' date_str) = Inr (year_of_event r, m, d)"
    by blast
  from y show "1 \<le> year_of_event r" "year_of_event r \<le> 9999" by simp_all
  from s y(3,4) show "\<exists>j res rs row k date_str m d.
                  data = Some j \<and> results j = Some res \<and> bindings res = Some rs
                  \<and> row \<in> set rs \<and> wikidata_item parse row = Inr (k, r)
                  \<and> map_of (dict_get row ''date'' []) ''value'' = Some date_str
                  \<and> fromisoformat parse (replace CHR ''Z'' ''+00:00'' date_str)
                       = Inr (year_of_event r, m, d)"
    by blast
qed

text \<open>
  Claim C8.  Every record appended by either normaliser has a \<^verbatim>\<open>month\<close> and a \<^verbatim>\<open>day\<close>
  of exactly two decimal digits that denote a date of the calendar, the 29th of
  February included: the month is between 01 and 12 and the day between 01 and the
  length of that month in the leap year 2024, from which the On-This-Day loop takes its
  dates (its 60th day is the 29th of February).
\<close>

theorem month_day_fields:
  "(\<forall>acc' report. process_wikidata_results parse data acc = Inr (acc', report)
        \<longrightarrow> (\<forall>r \<in> set (new_rows acc acc'). month_day_ok r))
   \<and> (\<forall>acc'. onthisday_days session_get day_nos acc = Inr acc'
        \<longrightarrow> (\<forall>r \<in> set (new_rows acc acc'). month_day_ok r))
   \<and> date_plus_days (2024, 1, 1) (60 - 1) = (2024, 2, 29)"
proof (intro conjI allI impI ballI)
  fix acc' report r
  assume "process_wikidata_results parse data acc = Inr (acc', report)"
    and r: "r \<in> set (new_rows acc acc')"
  from process_wikidata_results_appends[OF this(1)] obtain ps where
    "acc' = append_records ps acc" "\<forall>p \<in> set ps. month_day_ok (snd p)"
    by (auto simp: dated_def)
  with r show "month_day_ok r" by (auto simp: new_rows_append_records)
next
  fix acc' r
  assume "onthisday_days session_get day_nos acc = Inr acc'" and r: "r \<in> set (new_rows acc acc')"
  from onthisday_days_appends[OF this(1)] obtain ps where
    "acc' = append_records ps acc" "\<forall>p \<in> set ps. month_day_ok (snd p)"
    by (auto simp: dated_def)
  with r show "month_day_ok r" by (auto simp: new_rows_append_records)
next
  show "date_plus_days (2024, 1, 1) (60 - 1) = (2024, 2, 29)" by code_simp
qed

lemma onthisday_days_no_feed: "onthisday_days (\<lambda>u. None) day_nos acc = Inr acc"
proof (induction day_nos)
  case Nil
  show ?case by simp
next
  case (Cons n ns)
  have "valid_date (date_plus_days (2024, 1, 1) (n - 1))"
    by (rule date_plus_days_valid) (simp add: valid_date_def days_in_month_def)
  moreover obtain y m d where "date_plus_days (2024, 1, 1) (n - 1) = (y, m, d)"
    by (cases "date_plus_days (2024, 1, 1) (n - 1)")
  ultimately have "onthisday_day (\<lambda>u. None) (date_plus_days (2024, 1, 1) (n - 1)) acc = Inr acc"
    by (simp add: onthisday_day_def Let_def date_label_of_valid)
  with Cons show ?case by simp
qed

lemma collect_no_feed:
  assumes "process_wikidata_results parse (Some j) accum_empty = Inr (acc, report)"
  shows "collect parse (Some j) (\<lambda>u. None) = Inr acc"
  using assms
  by (simp add: collect_def GET_WIKIDATA_def GET_ON_THIS_DAY_def onthisday_days_no_feed)

lemma collect_nothing: "collect parse None (\<lambda>u. None) = Inr accum_empty"
  by (simp add: collect_def GET_ON_THIS_DAY_def onthisday_days_no_feed)

lemma example_wikidata_run:
  "case process_wikidata_results iso_reference (Some example_answer) accum_empty of
     Inl e \<Rightarrow> False
   | Inr (acc', report) \<Rightarrow>
       report = Complete 2 1 1
       \<and> map (\<lambda>r. (month r, day r, year_of_event r)) (all_rows acc') = [(''04'', ''19'', 1995)]
       \<and> map fst (events_by_date acc') = [''April 19'']"
  by code_simp

lemma example_onthisday_run:
  "case onthisday_days example_session [60] accum_empty of
     Inl e \<Rightarrow> False
   | Inr acc' \<Rightarrow>
       map (\<lambda>r. (month r, day r, year_of_event r, crime_type r)) (all_rows acc')
         = [(''02'', ''29'', 1996, ''bombing'')]
       \<and> map fst (events_by_date acc') = [''February 29'']"
  by code_simp

text \<open>Claim C1 on an answer of two rows, one of them unresolved, and on the feed of the
  29th of February.\<close>

theorem lockstep_accumulators_witness:
  "\<exists>acc1 acc2 report.
     process_wikidata_results iso_reference (Some example_answer) accum_empty = Inr (acc1, report)
     \<and> onthisday_days example_session [60] accum_empty = Inr acc2
     \<and> grows_in_lockstep accum_empty acc1 \<and> grows_in_lockstep accum_empty acc2
     \<and> length (new_rows accum_empty acc1) = 1 \<and> length (new_rows accum_empty acc2) = 1
     \<and> entries_under ''February 29'' (events_by_date acc2) =
         entries_under ''February 29'' (events_by_date accum_empty) @
         map (\<lambda>r. [(event r, payload_of r)])
           (filter (\<lambda>r. row_label r = ''February 29'') (new_rows accum_empty acc2))"
proof -
  from example_wikidata_run obtain acc1 report where
    w: "process_wikidata_results iso_reference (Some example_answer) accum_empty = Inr (acc1, report)"
    and w1: "length (all_rows acc1) = 1"
    by (auto split: sum.splits dest: arg_cong[where f = length])
  from example_onthisday_run obtain acc2 where
    o: "onthisday_days example_session [60] accum_empty = Inr acc2"
    and o1: "length (all_rows acc2) = 1"
    by (auto split: sum.splits dest: arg_cong[where f = length])
  note t = lockstep_accumulators[where parse = iso_reference and data = "Some example_answer"
      and acc = accum_empty and session_get = example_session and day_nos = "[60]"]
  from w have "collect iso_reference (Some example_answer) (\<lambda>u. None) = Inr acc1"
    by (rule collect_no_feed)
  with lockstep_accumulators[where parse = iso_reference and wikidata_json = "Some example_answer"
      and session_get = "\<lambda>u. None"]
  have g0: "grows_in_lockstep accum_empty acc1" by blast
  from t w have g1: "grows_in_lockstep accum_empty acc1" by blast
  from t o have g2: "grows_in_lockstep accum_empty acc2" by blast
  from t g2 have "entries_under ''February 29'' (events_by_date acc2) =
         entries_under ''February 29'' (events_by_date accum_empty) @
         map (\<lambda>r. [(event r, payload_of r)])
           (filter (\<lambda>r. row_label r = ''February 29'') (new_rows accum_empty acc2))"
    by blast
  with w o g1 g2 w1 o1 show ?thesis
    by (auto simp: new_rows_def accum_empty_def)
qed

text \<open>Claim C2 as stated fails: handed a row dated 1850, the Wikidata normaliser accepts
  it.\<close>

theorem wikidata_cutoff_counterexample:
  "process_wikidata_results iso_reference
     (Some \<lparr>results = Some \<lparr>bindings = Some
        [[(''date'', [(''value'', ''1850-06-15T00:00:00Z'')]),
          (''itemLabel'', [(''value'', ''Some massacre'')])]]\<rparr>\<rparr>)
     accum_empty
   = Inr (\<lparr>all_rows =
             [\<lparr>source = ''Wikidata'', month = ''06'', day = ''15'', year_of_event = 1850,
               event = ''Some massacre'', title = ''Some massacre'',
               description = ''Source: Wikidata'', crime_type = ''crime'', country = [],
               url = [], latitude = Blank, longitude = Blank, extract = [],
               related_topics = [], topic_page_urls = []\<rparr>],
           events_by_date =
             [(''June 15'',
               [[(''Some massacre'',
                  \<lparr>p_year_of_event = 1850, p_event = ''Some massacre'',
                   p_title = ''Some massacre'', p_description = ''Source: Wikidata'',
                   p_crime_type = ''crime'', p_country = [], p_url = [], p_extract = [],
                   p_related_topics = [], p_topic_page_urls = []\<rparr>)]])]\<rparr>,
          Complete 1 1 0)
   \<and> (1850 :: int) < YEAR_CUTOFF"
  by code_simp

lemma example_item_run:
  "case wikidata_item iso_reference (example_item ''1995-04-19T00:00:00Z'' ''Oklahoma City bombing'') of
     Inl e \<Rightarrow> False
   | Inr (k, r) \<Rightarrow> year_of_event r = 1995"
  by code_simp

lemma example_event_run:
  "case onthisday_event ''02'' ''29'' example_event of
     Inl e \<Rightarrow> False
   | Inr None \<Rightarrow> False
   | Inr (Some r) \<Rightarrow> year_of_event r = 1996"
  by code_simp

text \<open>The amended claim C2 on the example event of 1996, on an event of 1850, which is
  passed over, and on the two example runs.\<close>

theorem year_cutoff_by_source_witness:
  "(\<exists>r. onthisday_event ''02'' ''29'' example_event = Inr (Some r)
        \<and> year example_event = Some (year_of_event r) \<and> YEAR_CUTOFF \<le> year_of_event r
        \<and> year_of_event r = 1996)
   \<and> onthisday_event ''01'' ''01'' example_old_event = Inr None
   \<and> onthisday_events ''01'' ''01'' ''January 1'' [example_old_event] accum_empty = Inr accum_empty
   \<and> (\<exists>acc2. onthisday_days example_session [60] accum_empty = Inr acc2
        \<and> length (new_rows accum_empty acc2) = 1
        \<and> list_all (\<lambda>r. YEAR_CUTOFF \<le> year_of_event r) (new_rows accum_empty acc2)
        \<and> list_all (\<lambda>r. \<exists>u feed_data e. example_session u = Some feed_data
                 \<and> e \<in> set (case events feed_data of None \<Rightarrow> [] | Some evs \<Rightarrow> evs)
                 \<and> year e = Some (year_of_event r)) (new_rows accum_empty acc2))
   \<and> (\<exists>k r date_str m d.
        wikidata_item iso_reference (example_item ''1995-04-19T00:00:00Z'' ''Oklahoma City bombing'')
          = Inr (k, r)
        \<and> year_of_event r = 1995
        \<and> map_of (dict_get (example_item ''1995-04-19T00:00:00Z'' ''Oklahoma City bombing'') ''date'' [])
            ''value'' = Some date_str
        \<and> fromisoformat iso_reference (replace CHR ''Z'' ''+00:00'' date_str) = Inr (year_of_event r, m, d))
   \<and> (\<exists>acc1 report.
        process_wikidata_results iso_reference (Some example_answer) accum_empty = Inr (acc1, report)
        \<and> length (new_rows accum_empty acc1) = 1
        \<and> list_all (\<lambda>r. 1 \<le> year_of_event r \<and> year_of_event r \<le> 9999
                 \<and> (\<exists>row k date_str m d.
                       wikidata_item iso_reference row = Inr (k, r)
                       \<and> map_of (dict_get row ''date'' []) ''value'' = Some date_str
                       \<and> fromisoformat iso_reference (replace CHR ''Z'' ''+00:00'' date_str)
                            = Inr (year_of_event r, m, d)))
            (new_rows accum_empty acc1))"
proof -
  from example_event_run obtain r0 where
    e0: "onthisday_event ''02'' ''29'' example_event = Inr (Some r0)" "year_of_event r0 = 1996"
    by (auto split: sum.splits option.splits)
  from year_cutoff_by_source[where mm = "''02''" and dd = "''29''" and ev = example_event] e0(1)
  have "year example_event = Some (year_of_event r0) \<and> YEAR_CUTOFF \<le> year_of_event r0" by blast
  with e0 have 1: "\<exists>r. onthisday_event ''02'' ''29'' example_event = Inr (Some r)
        \<and> year example_event = Some (year_of_event r) \<and> YEAR_CUTOFF \<le> year_of_event r
        \<and> year_of_event r = 1996"
    by blast
  have old: "text example_old_event \<noteq> None"
    "case year example_old_event of None \<Rightarrow> True | Some y \<Rightarrow> y < YEAR_CUTOFF"
    by code_simp+
  from year_cutoff_by_source[where mm = "''01''" and dd = "''01''" and ev = example_old_event
      and date_label = "''January 1''" and acc = accum_empty] old
  have 2: "onthisday_event ''01'' ''01'' example_old_event = Inr None"
    "onthisday_events ''01'' ''01'' ''January 1'' [example_old_event] accum_empty = Inr accum_empty"
    by blast+
  from example_onthisday_run obtain acc2 where
    o: "onthisday_days example_session [60] accum_empty = Inr acc2"
    and o1: "length (all_rows acc2) = 1"
    by (auto split: sum.splits dest: arg_cong[where f = length])
  from year_cutoff_by_source[where session_get = example_session and day_nos = "[60]"
      and acc = accum_empty] o
  have "\<forall>r \<in> set (new_rows accum_empty acc2).
            YEAR_CUTOFF \<le> year_of_event r
            \<and> (\<exists>u feed_data e m d.
                  example_session u = Some feed_data
                  \<and> e \<in> set (case events feed_data of None \<Rightarrow> [] | Some evs \<Rightarrow> evs)
                  \<and> onthisday_event m d e = Inr (Some r)
                  \<and> year e = Some (year_of_event r))"
    by blast
  then have "list_all (\<lambda>r. YEAR_CUTOFF \<le> year_of_event r) (new_rows accum_empty acc2)"
    "list_all (\<lambda>r. \<exists>u feed_data e. example_session u = Some feed_data
                 \<and> e \<in> set (case events feed_data of None \<Rightarrow> [] | Some evs \<Rightarrow> evs)
                 \<and> year e = Some (year_of_event r)) (new_rows accum_empty acc2)"
    unfolding list_all_iff by blast+
  with o o1 have 3: "\<exists>acc2. onthisday_days example_session [60] accum_empty = Inr acc2
        \<and> length (new_rows accum_empty acc2) = 1
        \<and> list_all (\<lambda>r. YEAR_CUTOFF \<le> year_of_event r) (new_rows accum_empty acc2)
        \<and> list_all (\<lambda>r. \<exists>u feed_data e. example_session u = Some feed_data
                 \<and> e \<in> set (case events feed_data of None \<Rightarrow> [] | Some evs \<Rightarrow> evs)
                 \<and> year e = Some (year_of_event r)) (new_rows accum_empty acc2)"
    by (intro exI[of _ acc2]) (simp add: new_rows_def accum_empty_def)
  from example_item_run obtain k1 r1 where
    i: "wikidata_item iso_reference (example_item ''1995-04-19T00:00:00Z'' ''Oklahoma City bombing'')
          = Inr (k1, r1)" "year_of_event r1 = 1995"
    by (auto split: sum.splits)
  from year_cutoff_by_source[where parse = iso_reference
      and item = "example_item ''1995-04-19T00:00:00Z'' ''Oklahoma City bombing''"] i(1)
  have "\<exists>date_str m d.
          map_of (dict_get (example_item ''1995-04-19T00:00:00Z'' ''Oklahoma City bombing'') ''date'' [])
            ''value'' = Some date_str
          \<and> fromisoformat iso_reference (replace CHR ''Z'' ''+00:00'' date_str) = Inr (year_of_event r1, m, d)"
    by blast
  with i have 4: "\<exists>k r date_str m d.
        wikidata_item iso_reference (example_item ''1995-04-19T00:00:00Z'' ''Oklahoma City bombing'')
          = Inr (k, r)
        \<and> year_of_event r = 1995
        \<and> map_of (dict_get (example_item ''1995-04-19T00:00:00Z'' ''Oklahoma City bombing'') ''date'' [])
            ''value'' = Some date_str
        \<and> fromisoformat iso_reference (replace CHR ''Z'' ''+00:00'' date_str) = Inr (year_of_event r, m, d)"
    by blast
  from example_wikidata_run obtain acc1 report where
    w: "process_wikidata_results iso_reference (Some example_answer) accum_empty = Inr (acc1, report)"
    and w1: "length (all_rows acc1) = 1"
    by (auto split: sum.splits dest: arg_cong[where f = length])
  from year_cutoff_by_source[where parse = iso_reference and data = "Some example_answer"
      and acc = accum_empty] w
  have "\<forall>r \<in> set (new_rows accum_empty acc1).
            1 \<le> year_of_event r \<and> year_of_event r \<le> 9999
            \<and> (\<exists>j res rs row k date_str m d.
                  Some example_answer = Some j \<and> results j = Some res \<and> bindings res = Some rs
                  \<and> row \<in> set rs \<and> wikidata_item iso_reference row = Inr (k, r)
                  \<and> map_of (dict_get row ''date'' []) ''value'' = Some date_str
                  \<and> fromisoformat iso_reference (replace CHR ''Z'' ''+00:00'' date_str)
                       = Inr (year_of_event r, m, d))"
    by blast
  then have "list_all (\<lambda>r. 1 \<le> year_of_event r \<and> year_of_event r \<le> 9999
                 \<and> (\<exists>row k date_str m d.
                       wikidata_item iso_reference row = Inr (k, r)
                       \<and> map_of (dict_get row ''date'' []) ''value'' = Some date_str
                       \<and> fromisoformat iso_reference (replace CHR ''Z'' ''+00:00'' date_str)
                            = Inr (year_of_event r, m, d)))
            (new_rows accum_empty acc1)"
    unfolding list_all_iff by blast
  with w w1 have 5: "\<exists>acc1 report.
        process_wikidata_results iso_reference (Some example_answer) accum_empty = Inr (acc1, report)
        \<and> length (new_rows accum_empty acc1) = 1
        \<and> list_all (\<lambda>r. 1 \<le> year_of_event r \<and> year_of_event r \<le> 9999
                 \<and> (\<exists>row k date_str m d.
                       wikidata_item iso_reference row = Inr (k, r)
                       \<and> map_of (dict_get row ''date'' []) ''value'' = Some date_str
                       \<and> fromisoformat iso_reference (replace CHR ''Z'' ''+00:00'' date_str)
                            = Inr (year_of_event r, m, d)))
            (new_rows accum_empty acc1)"
    by (intro exI[of _ acc1] exI[of _ report]) (simp add: new_rows_def accum_empty_def)
  from 1 2 3 4 5 show ?thesis by (intro conjI)
qed

text \<open>Claim C8 on the two example runs; the second one appends a record of the 29th of
  February.\<close>

theorem month_day_fields_witness:
  "\<exists>acc1 acc2 report.
     process_wikidata_results iso_reference (Some example_answer) accum_empty = Inr (acc1, report)
     \<and> onthisday_days example_session [60] accum_empty = Inr acc2
     \<and> list_all month_day_ok (new_rows accum_empty acc1)
     \<and> list_all month_day_ok (new_rows accum_empty acc2)
     \<and> map (\<lambda>r. (month r, day r)) (new_rows accum_empty acc1) = [(''04'', ''19'')]
     \<and> map (\<lambda>r. (month r, day r)) (new_rows accum_empty acc2) = [(''02'', ''29'')]"
proof -
  from example_wikidata_run obtain acc1 report where
    w: "process_wikidata_results iso_reference (Some example_answer) accum_empty = Inr (acc1, report)"
    and w1: "map (\<lambda>r. (month r, day r)) (all_rows acc1) = [(''04'', ''19'')]"
    by (auto split: sum.splits)
  from example_onthisday_run obtain acc2 where
    o: "onthisday_days example_session [60] accum_empty = Inr acc2"
    and o1: "map (\<lambda>r. (month r, day r)) (all_rows acc2) = [(''02'', ''29'')]"
    by (auto split: sum.splits)
  note t = month_day_fields[of iso_reference "Some example_answer" accum_empty example_session "[60]"]
  from t w have "\<forall>r \<in> set (new_rows accum_empty acc1). month_day_ok r" by blast
  moreover from t o have "\<forall>r \<in> set (new_rows accum_empty acc2). month_day_ok r" by blast
  ultimately show ?thesis using w o w1 o1
    by (auto simp: list_all_iff new_rows_def accum_empty_def)
qed

subsection \<open>Failures and rejections\<close>

lemma startswith_Q: "startswith s ''Q'' \<longleftrightarrow> s \<noteq> [] \<and> hd s = CHR ''Q''"
  by (cases s) (simp_all add: startswith_def)

text \<open>
  Claim C4.  The claim holds of the Wikidata loop and fails in the On-This-Day loop,
  which has no \<^verbatim>\<open>try\<close>: an event without the key \<^verbatim>\<open>text\<close>, or with a page without the key
  \<^verbatim>\<open>title\<close>, raises \<^verbatim>\<open>KeyError\<close> out of the loop and out of \<^verbatim>\<open>main\<close>, which writes
  nothing.
\<close>

theorem onthisday_missing_field_raises:
  "main iso_reference None
     (\<lambda>u. Some \<lparr>events = Some [\<lparr>text = None, year = Some 1995, pages = Some []\<rparr>]\<rparr>)
     ''20240101_000000''
   = \<lparr>files = [], printed = [], raised = Some KeyError\<rparr>
   \<and> onthisday_events ''01'' ''01'' ''January 1''
       [\<lparr>text = Some ''A bombing in the city'', year = Some 1995,
         pages = Some [\<lparr>page.title = None, description = None, content_urls = None,
                        extract = None, coordinates = None\<rparr>]\<rparr>]
       accum_empty
     = Inl KeyError"
  by code_simp

text \<open>The guard on the label, \<^verbatim>\<open>not event_text or event_text.startswith('Q')\<close>, on a
  row whose date is present and is read as a date: the row is rejected, and counted as
  skipped, exactly when its label is absent, empty, or begins with the letter Q,
  whatever follows the Q.\<close>

lemma wikidata_label_guard:
  assumes "map_of (dict_get item ''date'' []) ''value'' = Some date_str" and "date_str \<noteq> []"
    and "fromisoformat parse (replace CHR ''Z'' ''+00:00'' date_str) = Inr dt"
  shows "(label_rejected item \<longrightarrow>
            wikidata_item parse item = Inl ValueError
            \<and> wikidata_loop parse [item] (acc, p, s) = Inr (acc, p, s + 1))
         \<and> (\<not> label_rejected item \<longrightarrow>
            (\<exists>k r. wikidata_item parse item = Inr (k, r)
                \<and> map_of (dict_get item ''itemLabel'' []) ''value'' = Some (event r)
                \<and> wikidata_loop parse [item] (acc, p, s) = Inr (append_record k r acc, p + 1, s)))"
proof -
  obtain y m d where dt: "dt = (y, m, d)" by (cases dt)
  with assms(3) have "valid_date (y, m, d)" by (auto dest: fromisoformat_Inr)
  then have lbl: "date_label_of (y, m, d) = Inr (month_name ! nat m @ '' '' @ str_int d)"
    by (rule date_label_of_valid)
  show ?thesis
  proof (cases "label_rejected item")
    case True
    with assms dt have "wikidata_item parse item = Inl ValueError"
      by (auto simp: wikidata_item_def label_rejected_def startswith_Q
               split: option.splits list.splits)
    with True show ?thesis by simp
  next
    case False
    then obtain event_text where
      l: "map_of (dict_get item ''itemLabel'' []) ''value'' = Some event_text"
        "event_text \<noteq> []" "\<not> startswith event_text ''Q''"
      by (auto simp: label_rejected_def startswith_Q split: option.splits list.splits)
    with assms dt lbl obtain r where
      "wikidata_item parse item = Inr (month_name ! nat m @ '' '' @ str_int d, r)" "event r = event_text"
      by (simp add: wikidata_item_def Let_def)
    with False l show ?thesis by simp
  qed
qed

text \<open>
  Claim C3.  The claim fails in the code on resolved text that begins with the letter
  Q.  The guard does not look at what follows the Q: the row with the date
  \<^verbatim>\<open>1989-12-06T00:00:00Z\<close> and the label \<^verbatim>\<open>Quebec shooting\<close> raises \<^verbatim>\<open>ValueError\<close> at the
  guard and is counted as skipped, where the claim has it accepted; the same row with
  the label \<^verbatim>\<open>Montreal shooting\<close> is accepted.
\<close>

theorem wikidata_resolved_label_rejected:
  "wikidata_item iso_reference (example_item ''1989-12-06T00:00:00Z'' ''Quebec shooting'')
     = Inl ValueError
   \<and> process_wikidata_results iso_reference
       (Some \<lparr>results = Some \<lparr>bindings = Some
          [example_item ''1989-12-06T00:00:00Z'' ''Quebec shooting'']\<rparr>\<rparr>)
       accum_empty
     = Inr (accum_empty, Complete 1 0 1)
   \<and> (case wikidata_item iso_reference (example_item ''1989-12-06T00:00:00Z'' ''Montreal shooting'') of
         Inl e \<Rightarrow> False
       | Inr (k, r) \<Rightarrow> k = ''December 6'' \<and> event r = ''Montreal shooting'')"
  by code_simp

subsection \<open>Related pages\<close>

lemma map_page_title_Inr:
  "map page_title ps = map Inr ys \<Longrightarrow>
     \<exists>ts. map page.title ps = map Some ts \<and> ys = map (replace CHR ''_'' '' '') ts"
proof (induction ps arbitrary: ys)
  case Nil
  then show ?case by simp
next
  case (Cons p ps)
  from Cons.prems obtain y ys' where ys: "ys = y # ys'" "page_title p = Inr y"
    "map page_title ps = map Inr ys'"
    by (cases ys) auto
  from Cons.IH[OF ys(3)] obtain ts where
    ts: "map page.title ps = map Some ts" "ys' = map (replace CHR ''_'' '' '') ts"
    by blast
  from ys(2) obtain t where t: "page.title p = Some t" "y = replace CHR ''_'' '' '' t"
    by (auto simp: page_title_def split: option.splits)
  from ts t ys(1) show ?case
    by (intro exI[of _ "t # ts"]) simp
qed

lemma map_topic_url_Inr:
  assumes "map topic_url ps = map Inr us" "map page.title ps = map Some ts"
  shows "us = map2 (\<lambda>t p. replace CHR ''_'' '' '' t @ '': '' @ desktop_page p) ts ps"
  using assms
proof (induction ps arbitrary: us ts)
  case Nil
  then show ?case by simp
next
  case (Cons p ps)
  from Cons.prems(1) obtain u us' where us: "us = u # us'" "topic_url p = Inr u"
    "map topic_url ps = map Inr us'"
    by (cases us) auto
  from Cons.prems(2) obtain t ts' where ts: "ts = t # ts'" "page.title p = Some t"
    "map page.title ps = map Some ts'"
    by (cases ts) auto
  from us(2) ts(2) have "u = replace CHR ''_'' '' '' t @ '': '' @ desktop_page p"
    by (simp add: topic_url_def page_title_def)
  with Cons.IH[OF us(3) ts(3)] us(1) ts(1) show ?case by simp
qed

lemma slice_after_first: "slice 1 MAX_PAGES ps = take (MAX_PAGES - 1) (tl ps)"
  by (simp add: slice_def drop_take drop_Suc)

text \<open>
  Claim C5.  For every accepted On-This-Day event, the related pages are those after
  the primary one among the first \<^verbatim>\<open>MAX_PAGES\<close> pages, \<^verbatim>\<open>pages[1:MAX_PAGES]\<close>, at most
  \<^verbatim>\<open>MAX_PAGES - 1\<close> of them.  Each of them has a title; \<^verbatim>\<open>related_topics\<close> is the join
  with a comma and a space of their titles, underscores replaced with spaces, and
  \<^verbatim>\<open>topic_page_urls\<close> the join of the texts \<^verbatim>\<open>title: desktop_url\<close> over the same pages,
  where the desktop URL is empty when \<^verbatim>\<open>content_urls\<close>, its \<^verbatim>\<open>desktop\<close> or the \<^verbatim>\<open>page\<close> under
  it is missing.
\<close>

theorem related_pages_fields:
  assumes "onthisday_event mm dd ev = Inr (Some r)"
  shows "\<exists>ps titles.
           pages ev = Some ps
           \<and> map page.title (slice 1 MAX_PAGES ps) = map Some titles
           \<and> related_topics r = join '', '' (map (replace CHR ''_'' '' '') titles)
           \<and> topic_page_urls r =
               join '', '' (map2 (\<lambda>t p. replace CHR ''_'' '' '' t @ '': '' @ desktop_page p)
                                titles (slice 1 MAX_PAGES ps))
           \<and> slice 1 MAX_PAGES ps = take (MAX_PAGES - 1) (tl ps)
           \<and> length titles \<le> MAX_PAGES - 1
           \<and> (\<forall>p. desktop_page p =
                 (case content_urls p of
                    None \<Rightarrow> []
                  | Some cu \<Rightarrow>
                      (case map_of cu ''desktop'' of
                         None \<Rightarrow> []
                       | Some dk \<Rightarrow> (case map_of dk ''page'' of None \<Rightarrow> [] | Some u \<Rightarrow> u))))"
proof -
  from assms obtain p ps titles urls where
    ps: "pages ev = Some (p # ps)" and
    t: "map_raise page_title (slice 1 MAX_PAGES (p # ps)) = Inr titles" and
    u: "map_raise topic_url (slice 1 MAX_PAGES (p # ps)) = Inr urls" and
    r: "related_topics r = join '', '' titles" "topic_page_urls r = join '', '' urls"
    by (elim onthisday_event_Some)
  from t have "map page_title (slice 1 MAX_PAGES (p # ps)) = map Inr titles"
    by (simp add: map_raise_Inr)
  from map_page_title_Inr[OF this] obtain ts where
    ts: "map page.title (slice 1 MAX_PAGES (p # ps)) = map Some ts"
      "titles = map (replace CHR ''_'' '' '') ts"
    by blast
  from u have "map topic_url (slice 1 MAX_PAGES (p # ps)) = map Inr urls"
    by (simp add: map_raise_Inr)
  from map_topic_url_Inr[OF this ts(1)] have
    urls: "urls = map2 (\<lambda>t p. replace CHR ''_'' '' '' t @ '': '' @ desktop_page p) ts
                    (slice 1 MAX_PAGES (p # ps))" .
  from ts(1) have "length ts = length (slice 1 MAX_PAGES (p # ps))"
    by (metis length_map)
  also have "\<dots> = length (take (MAX_PAGES - 1) (tl (p # ps)))"
    by (simp only: slice_after_first)
  finally have len: "length ts \<le> MAX_PAGES - 1" by simp
  have dp: "\<forall>p. desktop_page p =
                 (case content_urls p of
                    None \<Rightarrow> []
                  | Some cu \<Rightarrow>
                      (case map_of cu ''desktop'' of
                         None \<Rightarrow> []
                       | Some dk \<Rightarrow> (case map_of dk ''page'' of None \<Rightarrow> [] | Some u \<Rightarrow> u)))"
    by (simp add: desktop_page_def dict_get_def split: option.splits)
  from ps ts r urls len dp slice_after_first[of "p # ps"] show ?thesis by blast
qed

lemma example_bombing_run:
  "case onthisday_event ''04'' ''19'' example_bombing of
     Inl e \<Rightarrow> False
   | Inr None \<Rightarrow> False
   | Inr (Some r) \<Rightarrow>
       related_topics r = ''Oklahoma City, Timothy McVeigh, Terry Nichols, Domestic terrorism''
       \<and> crime_type r = ''bombing'' \<and> year_of_event r = 1995"
  by code_simp

lemma map_Some_eq: "map Some xs = map Some ys \<longleftrightarrow> xs = ys"
  by (simp add: inj_map_eq_map)

text \<open>Claim C5 on an event with seven pages, the third without \<^verbatim>\<open>content_urls\<close>: the
  related pages are the second to the fifth.\<close>

theorem related_pages_fields_witness:
  "\<exists>r. onthisday_event ''04'' ''19'' example_bombing = Inr (Some r)
       \<and> related_topics r =
           join '', '' (map (replace CHR ''_'' '' '')
             [''Oklahoma_City'', ''Timothy_McVeigh'', ''Terry_Nichols'', ''Domestic_terrorism''])
       \<and> topic_page_urls r =
           ''Oklahoma City: https://en.wikipedia.org/wiki/Oklahoma_City, Timothy McVeigh: , '' @
           ''Terry Nichols: https://en.wikipedia.org/wiki/Terry_Nichols, '' @
           ''Domestic terrorism: https://en.wikipedia.org/wiki/Domestic_terrorism''"
proof -
  from example_bombing_run obtain r where
    h: "onthisday_event ''04'' ''19'' example_bombing = Inr (Some r)"
    by (auto split: sum.splits option.splits)
  from related_pages_fields[OF h] obtain ps titles where
    ps: "pages example_bombing = Some ps" and
    t: "map page.title (slice 1 MAX_PAGES ps) = map Some titles" and
    r: "related_topics r = join '', '' (map (replace CHR ''_'' '' '') titles)"
       "topic_page_urls r =
          join '', '' (map2 (\<lambda>t p. replace CHR ''_'' '' '' t @ '': '' @ desktop_page p)
                           titles (slice 1 MAX_PAGES ps))"
    by blast
  from ps have ps': "ps = example_pages" by (simp add: example_bombing_def)
  have "map page.title (slice 1 MAX_PAGES example_pages) =
          map Some [''Oklahoma_City'', ''Timothy_McVeigh'', ''Terry_Nichols'', ''Domestic_terrorism'']"
    by code_simp
  with t ps' have titles:
    "titles = [''Oklahoma_City'', ''Timothy_McVeigh'', ''Terry_Nichols'', ''Domestic_terrorism'']"
    by (simp only: map_Some_eq)
  have "join '', '' (map2 (\<lambda>t p. replace CHR ''_'' '' '' t @ '': '' @ desktop_page p)
           [''Oklahoma_City'', ''Timothy_McVeigh'', ''Terry_Nichols'', ''Domestic_terrorism'']
           (slice 1 MAX_PAGES example_pages)) =
        ''Oklahoma City: https://en.wikipedia.org/wiki/Oklahoma_City, Timothy McVeigh: , '' @
        ''Terry Nichols: https://en.wikipedia.org/wiki/Terry_Nichols, '' @
        ''Domestic terrorism: https://en.wikipedia.org/wiki/Domestic_terrorism''"
    by code_simp
  with h r titles ps' show ?thesis by auto
qed

subsection \<open>The keyword filter\<close>
















subsection \<open>The order of the grouped file\<close>

lemma map_insort_key: "map f (insort_key f x xs) = insort (f x) (map f xs)"
  by (induction xs) simp_all

lemma map_sort_key: "map f (sort_key f xs) = sort (map f xs)"
  by (induction xs) (simp_all add: map_insort_key)

lemma distinct_map_sort_key: "distinct (map f xs) \<Longrightarrow> distinct (map f (sort_key f xs))"
  by (simp add: map_sort_key)

lemma distinct_map_Inr: "distinct xs \<Longrightarrow> distinct (map Inr xs)"
  by (simp add: distinct_map inj_on_def)

lemma distinct_map_imp: "distinct (map f xs) \<Longrightarrow> distinct xs"
  by (simp add: distinct_map)

lemma canonical_label_key:
  assumes "canonical_label k"
  obtains m d where "strptime_B_d_Y (k @ '' 2024'') = Inr (2024, m, d)"
    "date_label_of (2024, m, d) = Inr k"
proof -
  from assms obtain dt where dt: "strptime_B_d_Y (k @ '' 2024'') = Inr dt" "fst dt = 2024"
    "date_label_of dt = Inr k"
    by (auto simp: canonical_label_def split: sum.splits)
  obtain y m d where "dt = (y, m, d)" by (cases dt)
  with dt that show ?thesis by simp
qed

lemma map_raise_sort_key_of:
  assumes "\<forall>k \<in> set (map fst g). canonical_label k"
  shows "\<exists>keyed. map_raise sort_key_of g = Inr keyed \<and> map snd keyed = g
           \<and> (\<forall>x \<in> set keyed. strptime_B_d_Y (fst (snd x) @ '' 2024'') = Inr (fst x)
                 \<and> fst (fst x) = 2024 \<and> date_label_of (fst x) = Inr (fst (snd x)))"
  using assms
proof (induction g)
  case Nil
  show ?case by simp
next
  case (Cons item g)
  then obtain keyed where keyed: "map_raise sort_key_of g = Inr keyed" "map snd keyed = g"
    "\<forall>x \<in> set keyed. strptime_B_d_Y (fst (snd x) @ '' 2024'') = Inr (fst x)
        \<and> fst (fst x) = 2024 \<and> date_label_of (fst x) = Inr (fst (snd x))"
    by auto
  from Cons.prems have "canonical_label (fst item)" by simp
  then obtain m d where md: "strptime_B_d_Y (fst item @ '' 2024'') = Inr (2024, m, d)"
    "date_label_of (2024, m, d) = Inr (fst item)"
    by (rule canonical_label_key)
  then have "sort_key_of item = Inr ((2024, m, d), item)" by (simp add: sort_key_of_def)
  with keyed md show ?case
    by (intro exI[of _ "((2024, m, d), item) # keyed"]) simp
qed

lemma less_same_year: "((2024 :: int, m :: int, d :: int) < (2024, m', d')) = ((m, d) < (m', d'))"
  by (simp add: less_prod_def)

lemma sorted_events_by_date_chronological:
  assumes "distinct (map fst g)" "\<forall>k \<in> set (map fst g). canonical_label k"
  shows "\<exists>out dates.
         sorted_events_by_date g = Inr out
         \<and> set out = set g \<and> length out = length g
         \<and> map (\<lambda>item. strptime_B_d_Y (fst item @ '' 2024'')) out = map Inr dates
         \<and> sorted_wrt (<) (map month_day dates)"
proof -
  from assms(2) obtain keyed where keyed: "map_raise sort_key_of g = Inr keyed" "map snd keyed = g"
    and keys: "\<forall>x \<in> set keyed. strptime_B_d_Y (fst (snd x) @ '' 2024'') = Inr (fst x)
        \<and> fst (fst x) = 2024 \<and> date_label_of (fst x) = Inr (fst (snd x))"
    using map_raise_sort_key_of[of g] by blast
  define sorted_items where "sorted_items = sort_key fst keyed"
  define out where "out = map snd sorted_items"
  define dates where "dates = map fst sorted_items"
  have same: "set sorted_items = set keyed" by (simp add: sorted_items_def)
  from keyed have res: "sorted_events_by_date g = Inr out"
    by (simp add: sorted_events_by_date_def out_def sorted_items_def)
  from keyed(2) same have set_out: "set out = set g"
    by (metis out_def set_map)
  from keyed(2) have len: "length out = length g"
    by (metis out_def sorted_items_def length_map length_sort)
  from keys same have parsed:
    "map (\<lambda>item. strptime_B_d_Y (fst item @ '' 2024'')) out = map Inr dates"
    by (simp add: out_def dates_def)
  have sorted: "sorted dates"
    by (simp add: dates_def sorted_items_def sorted_sort_key)
  have "map (\<lambda>x. date_label_of (fst x)) keyed = map (\<lambda>x. Inr (fst (snd x))) keyed"
    using keys by simp
  also have "\<dots> = map Inr (map fst g)"
    unfolding keyed(2)[symmetric] by (simp add: comp_def)
  finally have "map date_label_of (map fst keyed) = map Inr (map fst g)" by (simp add: comp_def)
  moreover from assms(1) have "distinct (map (Inr :: string \<Rightarrow> py_error + string) (map fst g))"
    by (intro distinct_map_Inr) simp
  ultimately have "distinct (map date_label_of (map fst keyed))" by simp
  then have "distinct (map fst keyed)" by (rule distinct_map_imp)
  then have distinct: "distinct dates"
    by (simp add: dates_def sorted_items_def distinct_map_sort_key)
  from sorted distinct have strict: "sorted_wrt (<) dates" by (simp add: strict_sorted_iff)
  from keys same have y: "\<forall>dt \<in> set dates. fst dt = 2024" by (auto simp: dates_def)
  have "sorted_wrt (\<lambda>a b. month_day a < month_day b) dates"
  proof (rule sorted_wrt_mono_rel[OF _ strict])
    fix a b
    assume "a \<in> set dates" "b \<in> set dates" "a < b"
    with y obtain m d m' d' where "a = (2024, m, d)" "b = (2024, m', d')"
      by (metis fst_conv prod.collapse)
    with \<open>a < b\<close> show "month_day a < month_day b"
      by (simp add: month_day_def less_same_year)
  qed
  then have "sorted_wrt (<) (map month_day dates)" by (simp add: sorted_wrt_map)
  with res set_out len parsed show ?thesis by blast
qed

lemma collect_keys:
  assumes "collect parse wikidata_json session_get = Inr acc"
  shows "distinct (map fst (events_by_date acc))"
    "\<forall>k \<in> set (map fst (events_by_date acc)). canonical_label k"
    "events_by_date acc \<noteq> [] \<Longrightarrow> all_rows acc \<noteq> []"
proof -
  from collect_appends[OF assms] obtain ps where
    ps: "acc = append_records ps accum_empty" "\<forall>p \<in> set ps. dated p"
    by blast
  have "distinct (map fst (events_by_date accum_empty))" by (simp add: accum_empty_def)
  with ps(1) show "distinct (map fst (events_by_date acc))"
    by (simp only: distinct_append_records)
  from ps(1) have keys: "fst ` set (events_by_date acc) = fst ` set ps"
    by (simp add: keys_append_records accum_empty_def)
  with ps(2) show "\<forall>k \<in> set (map fst (events_by_date acc)). canonical_label k"
    by (auto simp: dated_def)
  assume "events_by_date acc \<noteq> []"
  with keys have "ps \<noteq> []" by auto
  with ps(1) show "all_rows acc \<noteq> []" by (simp add: all_rows_append_records)
qed

lemma export_results_files:
  assumes "all_rows acc \<noteq> []" "sorted_events_by_date (events_by_date acc) = Inr out"
  shows "files (export_results timestamp acc) =
           [(''files/crime_anniversaries_merged_'' @ timestamp @ ''.csv'', Table (sort_values (all_rows acc))),
            (''files/crime_anniversaries_merged_'' @ timestamp @ ''.json'', Grouped out)]"
  using assms by (simp add: export_results_def Let_def)

text \<open>
  Claim C6.  Let the Date Group Map have date labels for keys, each the label of a date
  of 2024 (a dictionary has no key twice).  Then the sort of the export block does not
  raise; it returns the same items in an order in which the keys, read back by
  \<^verbatim>\<open>strptime\<close> against the year 2024, give a strictly increasing sequence of
  (month, day) pairs, whatever the order of the labels as texts.  What the export block
  writes under the path of the grouped file is the list that this sort returns.  The
  accumulators that the two fetch passes of \<^verbatim>\<open>main\<close> produce have such keys; when their
  Date Group Map is not empty, \<^verbatim>\<open>main\<close> writes the grouped file, with the items of the
  map in that order.
\<close>

theorem grouped_keys_chronological:
  "(distinct (map fst g) \<and> (\<forall>k \<in> set (map fst g). canonical_label k) \<longrightarrow>
      (\<exists>out dates.
         sorted_events_by_date g = Inr out
         \<and> set out = set g \<and> length out = length g
         \<and> map (\<lambda>item. strptime_B_d_Y (fst item @ '' 2024'')) out = map Inr dates
         \<and> sorted_wrt (<) (map month_day dates)))
   \<and> (all_rows acc \<noteq> [] \<longrightarrow>
        (\<forall>out. sorted_events_by_date (events_by_date acc) = Inr out \<longrightarrow>
           files (export_results timestamp acc) =
             [(''files/crime_anniversaries_merged_'' @ timestamp @ ''.csv'',
               Table (sort_values (all_rows acc))),
              (''files/crime_anniversaries_merged_'' @ timestamp @ ''.json'', Grouped out)]))
   \<and> (collect parse wikidata_json session_get = Inr acc \<longrightarrow>
        distinct (map fst (events_by_date acc))
        \<and> (\<forall>k \<in> set (map fst (events_by_date acc)). canonical_label k)
        \<and> (events_by_date acc \<noteq> [] \<longrightarrow>
             (\<exists>table out dates.
                files (main parse wikidata_json session_get timestamp) =
                  [(''files/crime_anniversaries_merged_'' @ timestamp @ ''.csv'', Table table),
                   (''files/crime_anniversaries_merged_'' @ timestamp @ ''.json'', Grouped out)]
                \<and> sorted_events_by_date (events_by_date acc) = Inr out
                \<and> set out = set (events_by_date acc) \<and> length out = length (events_by_date acc)
                \<and> map (\<lambda>item. strptime_B_d_Y (fst item @ '' 2024'')) out = map Inr dates
                \<and> sorted_wrt (<) (map month_day dates))))"
proof (intro conjI impI allI)
  assume "distinct (map fst g) \<and> (\<forall>k \<in> set (map fst g). canonical_label k)"
  then show "\<exists>out dates.
         sorted_events_by_date g = Inr out
         \<and> set out = set g \<and> length out = length g
         \<and> map (\<lambda>item. strptime_B_d_Y (fst item @ '' 2024'')) out = map Inr dates
         \<and> sorted_wrt (<) (map month_day dates)"
    by (intro sorted_events_by_date_chronological) simp_all
next
  fix out
  assume "all_rows acc \<noteq> []" "sorted_events_by_date (events_by_date acc) = Inr out"
  then show "files (export_results timestamp acc) =
             [(''files/crime_anniversaries_merged_'' @ timestamp @ ''.csv'',
               Table (sort_values (all_rows acc))),
              (''files/crime_anniversaries_merged_'' @ timestamp @ ''.json'', Grouped out)]"
    by (rule export_results_files)
next
  assume c: "collect parse wikidata_json session_get = Inr acc"
  then show "distinct (map fst (events_by_date acc))" by (rule collect_keys(1))
next
  assume c: "collect parse wikidata_json session_get = Inr acc"
  then show "\<forall>k \<in> set (map fst (events_by_date acc)). canonical_label k" by (rule collect_keys(2))
next
  assume c: "collect parse wikidata_json session_get = Inr acc" and ne: "events_by_date acc \<noteq> []"
  from collect_keys(3)[OF c ne] have rows: "all_rows acc \<noteq> []" .
  from sorted_events_by_date_chronological[OF collect_keys(1,2)[OF c]] obtain out dates where
    o: "sorted_events_by_date (events_by_date acc) = Inr out"
       "set out = set (events_by_date acc)" "length out = length (events_by_date acc)"
       "map (\<lambda>item. strptime_B_d_Y (fst item @ '' 2024'')) out = map Inr dates"
       "sorted_wrt (<) (map month_day dates)"
    by blast
  from c have "main parse wikidata_json session_get timestamp = export_results timestamp acc"
    by (simp add: main_def)
  with export_results_files[OF rows o(1), of timestamp]
  have "files (main parse wikidata_json session_get timestamp) =
                  [(''files/crime_anniversaries_merged_'' @ timestamp @ ''.csv'',
                    Table (sort_values (all_rows acc))),
                   (''files/crime_anniversaries_merged_'' @ timestamp @ ''.json'', Grouped out)]"
    by simp
  with o show "\<exists>table out dates.
                files (main parse wikidata_json session_get timestamp) =
                  [(''files/crime_anniversaries_merged_'' @ timestamp @ ''.csv'', Table table),
                   (''files/crime_anniversaries_merged_'' @ timestamp @ ''.json'', Grouped out)]
                \<and> sorted_events_by_date (events_by_date acc) = Inr out
                \<and> set out = set (events_by_date acc) \<and> length out = length (events_by_date acc)
                \<and> map (\<lambda>item. strptime_B_d_Y (fst item @ '' 2024'')) out = map Inr dates
                \<and> sorted_wrt (<) (map month_day dates)"
    by blast
qed

lemma example_unordered_run:
  "case process_wikidata_results iso_reference (Some example_unordered) accum_empty of
     Inl e \<Rightarrow> False
   | Inr (acc', report) \<Rightarrow>
       map fst (events_by_date acc') = [''March 5'', ''January 31'']
       \<and> (case sorted_events_by_date (events_by_date acc') of
             Inl e \<Rightarrow> False
           | Inr out \<Rightarrow> map fst out = [''January 31'', ''March 5''])"
  by code_simp

text \<open>Claim C6 on four labels whose order as texts is April, December, January, March,
  and on a run of \<^verbatim>\<open>main\<close> that collects a record of the 5th of March before one of the
  31st of January, every feed request failing: the grouped file has January first.\<close>

theorem grouped_keys_chronological_witness:
  "(\<exists>out dates.
      sorted_events_by_date
        [(''March 5'', 1 :: nat), (''April 1'', 2), (''January 31'', 3), (''December 25'', 4)]
        = Inr out
      \<and> map fst out = [''January 31'', ''March 5'', ''April 1'', ''December 25'']
      \<and> map (\<lambda>item. strptime_B_d_Y (fst item @ '' 2024'')) out = map Inr dates
      \<and> sorted_wrt (<) (map month_day dates))
   \<and> (\<exists>acc table out dates.
         collect iso_reference (Some example_unordered) (\<lambda>u. None) = Inr acc
         \<and> map fst (events_by_date acc) = [''March 5'', ''January 31'']
         \<and> distinct (map fst (events_by_date acc))
         \<and> list_all canonical_label (map fst (events_by_date acc))
         \<and> files (main iso_reference (Some example_unordered) (\<lambda>u. None) ''20240101_000000'') =
             [(''files/crime_anniversaries_merged_'' @ ''20240101_000000'' @ ''.csv'', Table table),
              (''files/crime_anniversaries_merged_'' @ ''20240101_000000'' @ ''.json'', Grouped out)]
         \<and> files (export_results ''20240101_000000'' acc) =
             [(''files/crime_anniversaries_merged_'' @ ''20240101_000000'' @ ''.csv'',
               Table (sort_values (all_rows acc))),
              (''files/crime_anniversaries_merged_'' @ ''20240101_000000'' @ ''.json'', Grouped out)]
         \<and> map fst out = [''January 31'', ''March 5'']
         \<and> map (\<lambda>item. strptime_B_d_Y (fst item @ '' 2024'')) out = map Inr dates
         \<and> sorted_wrt (<) (map month_day dates))"
proof -
  let ?g = "[(''March 5'', 1 :: nat), (''April 1'', 2), (''January 31'', 3), (''December 25'', 4)]"
  have d: "distinct (map fst ?g)" by simp
  have "list_all canonical_label (map fst ?g)" by code_simp
  then have c: "\<forall>k \<in> set (map fst ?g). canonical_label k" by (simp only: list_all_iff)
  from grouped_keys_chronological[of ?g] d c obtain out dates where
    o: "sorted_events_by_date ?g = Inr out"
       "map (\<lambda>item. strptime_B_d_Y (fst item @ '' 2024'')) out = map Inr dates"
       "sorted_wrt (<) (map month_day dates)"
    by blast
  have "sorted_events_by_date ?g
          = Inr [(''January 31'', 3), (''March 5'', 1), (''April 1'', 2), (''December 25'', 4)]"
    by code_simp
  with o(1) have "map fst out = [''January 31'', ''March 5'', ''April 1'', ''December 25'']"
    by auto
  with o have first: "\<exists>out dates.
      sorted_events_by_date ?g = Inr out
      \<and> map fst out = [''January 31'', ''March 5'', ''April 1'', ''December 25'']
      \<and> map (\<lambda>item. strptime_B_d_Y (fst item @ '' 2024'')) out = map Inr dates
      \<and> sorted_wrt (<) (map month_day dates)"
    by - (rule exI[of _ out], rule exI[of _ dates], simp)
  from example_unordered_run obtain acc report where
    w: "process_wikidata_results iso_reference (Some example_unordered) accum_empty = Inr (acc, report)"
    and k: "map fst (events_by_date acc) = [''March 5'', ''January 31'']"
    and s: "case sorted_events_by_date (events_by_date acc) of
              Inl e \<Rightarrow> False | Inr out \<Rightarrow> map fst out = [''January 31'', ''March 5'']"
    by (auto split: sum.splits)
  from w have col: "collect iso_reference (Some example_unordered) (\<lambda>u. None) = Inr acc"
    by (rule collect_no_feed)
  from k have ne: "events_by_date acc \<noteq> []" by auto
  note t = grouped_keys_chronological[where parse = iso_reference
      and wikidata_json = "Some example_unordered" and session_get = "\<lambda>u. None" and acc = acc
      and timestamp = "''20240101_000000''"]
  from t col have dk: "distinct (map fst (events_by_date acc))"
    "\<forall>k \<in> set (map fst (events_by_date acc)). canonical_label k"
    by blast+
  from t col ne obtain table out2 dates2 where
    m: "files (main iso_reference (Some example_unordered) (\<lambda>u. None) ''20240101_000000'') =
             [(''files/crime_anniversaries_merged_'' @ ''20240101_000000'' @ ''.csv'', Table table),
              (''files/crime_anniversaries_merged_'' @ ''20240101_000000'' @ ''.json'', Grouped out2)]"
       "sorted_events_by_date (events_by_date acc) = Inr out2"
       "map (\<lambda>item. strptime_B_d_Y (fst item @ '' 2024'')) out2 = map Inr dates2"
       "sorted_wrt (<) (map month_day dates2)"
    by blast
  from m(2) s have o2: "map fst out2 = [''January 31'', ''March 5'']" by simp
  from m(1) col have "all_rows acc \<noteq> []"
    by (auto simp: main_def export_results_def)
  with t m(2) have e: "files (export_results ''20240101_000000'' acc) =
             [(''files/crime_anniversaries_merged_'' @ ''20240101_000000'' @ ''.csv'',
               Table (sort_values (all_rows acc))),
              (''files/crime_anniversaries_merged_'' @ ''20240101_000000'' @ ''.json'', Grouped out2)]"
    by blast
  from dk(2) have "list_all canonical_label (map fst (events_by_date acc))"
    by (simp only: list_all_iff)
  with col k dk(1) m(1,3,4) e o2 have second: "\<exists>acc table out dates.
         collect iso_reference (Some example_unordered) (\<lambda>u. None) = Inr acc
         \<and> map fst (events_by_date acc) = [''March 5'', ''January 31'']
         \<and> distinct (map fst (events_by_date acc))
         \<and> list_all canonical_label (map fst (events_by_date acc))
         \<and> files (main iso_reference (Some example_unordered) (\<lambda>u. None) ''20240101_000000'') =
             [(''files/crime_anniversaries_merged_'' @ ''20240101_000000'' @ ''.csv'', Table table),
              (''files/crime_anniversaries_merged_'' @ ''20240101_000000'' @ ''.json'', Grouped out)]
         \<and> files (export_results ''20240101_000000'' acc) =
             [(''files/crime_anniversaries_merged_'' @ ''20240101_000000'' @ ''.csv'',
               Table (sort_values (all_rows acc))),
              (''files/crime_anniversaries_merged_'' @ ''20240101_000000'' @ ''.json'', Grouped out)]
         \<and> map fst out = [''January 31'', ''March 5'']
         \<and> map (\<lambda>item. strptime_B_d_Y (fst item @ '' 2024'')) out = map Inr dates
         \<and> sorted_wrt (<) (map month_day dates)"
    by - (rule exI[of _ acc], rule exI[of _ table], rule exI[of _ out2], rule exI[of _ dates2], simp)
  from first second show ?thesis by (rule conjI)
qed

subsection \<open>What the export block writes\<close>

text \<open>
  Claim C9.  With an empty flat list the export block writes no file and prints the
  line that there is nothing to save.  With a flat list that is not empty, and a Date
  Group Map whose keys are date labels, it writes both files, the table first, and
  raises nothing.  \<^verbatim>\<open>main\<close> runs the export block on the accumulators of the two fetch
  passes, and the keys of their Date Group Map are date labels.
\<close>

theorem export_outcome:
  "(all_rows acc = [] \<longrightarrow>
      export_results timestamp acc = \<lparr>files = [], printed = [Nothing_to_save], raised = None\<rparr>)
   \<and> (all_rows acc \<noteq> [] \<and> (\<forall>k \<in> set (map fst (events_by_date acc)). canonical_label k) \<longrightarrow>
        (\<exists>table groups.
           export_results timestamp acc =
             \<lparr>files = [(''files/crime_anniversaries_merged_'' @ timestamp @ ''.csv'', Table table),
                       (''files/crime_anniversaries_merged_'' @ timestamp @ ''.json'', Grouped groups)],
              printed = [Files_saved (''files/crime_anniversaries_merged_'' @ timestamp @ ''.csv'')
                           (''files/crime_anniversaries_merged_'' @ timestamp @ ''.json'')
                           (length (all_rows acc))],
              raised = None\<rparr>
           \<and> set table = set (all_rows acc) \<and> length table = length (all_rows acc)
           \<and> set groups = set (events_by_date acc)))
   \<and> (collect parse wikidata_json session_get = Inr acc \<longrightarrow>
        main parse wikidata_json session_get timestamp = export_results timestamp acc
        \<and> (\<forall>k \<in> set (map fst (events_by_date acc)). canonical_label k))"
proof (intro conjI impI)
  assume "all_rows acc = []"
  then show "export_results timestamp acc = \<lparr>files = [], printed = [Nothing_to_save], raised = None\<rparr>"
    by (simp add: export_results_def)
next
  assume a: "all_rows acc \<noteq> [] \<and> (\<forall>k \<in> set (map fst (events_by_date acc)). canonical_label k)"
  then obtain keyed where keyed: "map_raise sort_key_of (events_by_date acc) = Inr keyed"
    "map snd keyed = events_by_date acc"
    using map_raise_sort_key_of[of "events_by_date acc"] by blast
  define groups where "groups = map snd (sort_key fst keyed)"
  from keyed have s: "sorted_events_by_date (events_by_date acc) = Inr groups"
    by (simp add: sorted_events_by_date_def groups_def)
  have "set groups = snd ` set keyed" by (simp add: groups_def)
  also have "\<dots> = set (events_by_date acc)" using keyed(2) by (metis set_map)
  finally have g: "set groups = set (events_by_date acc)" .
  from a s g show "\<exists>table groups.
           export_results timestamp acc =
             \<lparr>files = [(''files/crime_anniversaries_merged_'' @ timestamp @ ''.csv'', Table table),
                       (''files/crime_anniversaries_merged_'' @ timestamp @ ''.json'', Grouped groups)],
              printed = [Files_saved (''files/crime_anniversaries_merged_'' @ timestamp @ ''.csv'')
                           (''files/crime_anniversaries_merged_'' @ timestamp @ ''.json'')
                           (length (all_rows acc))],
              raised = None\<rparr>
           \<and> set table = set (all_rows acc) \<and> length table = length (all_rows acc)
           \<and> set groups = set (events_by_date acc)"
    by (intro exI[of _ "sort_values (all_rows acc)"] exI[of _ groups])
       (simp add: export_results_def Let_def sort_values_def)
next
  assume c: "collect parse wikidata_json session_get = Inr acc"
  then show "main parse wikidata_json session_get timestamp = export_results timestamp acc"
    by (simp add: main_def)
  from collect_appends[OF c] obtain ps where
    ps: "acc = append_records ps accum_empty" "\<forall>p \<in> set ps. dated p"
    by blast
  from ps(1) have "fst ` set (events_by_date acc) = fst ` set ps"
    by (simp add: keys_append_records accum_empty_def)
  with ps(2) show "\<forall>k \<in> set (map fst (events_by_date acc)). canonical_label k"
    by (auto simp: dated_def)
qed

text \<open>Claim C9 on a run in which every request fails, and on a run that collects one
  record from the example answer.\<close>

theorem export_outcome_witness:
  "main iso_reference None (\<lambda>u. None) ''20240101_000000''
     = \<lparr>files = [], printed = [Nothing_to_save], raised = None\<rparr>
   \<and> (\<exists>table groups.
        main iso_reference (Some example_answer) (\<lambda>u. None) ''20240101_000000'' =
          \<lparr>files = [(''files/crime_anniversaries_merged_'' @ ''20240101_000000'' @ ''.csv'', Table table),
                    (''files/crime_anniversaries_merged_'' @ ''20240101_000000'' @ ''.json'', Grouped groups)],
           printed = [Files_saved (''files/crime_anniversaries_merged_'' @ ''20240101_000000'' @ ''.csv'')
                        (''files/crime_anniversaries_merged_'' @ ''20240101_000000'' @ ''.json'') 1],
           raised = None\<rparr>
        \<and> length table = 1)"
proof -
  have e: "all_rows accum_empty = []" by (simp add: accum_empty_def)
  note t0 = export_outcome[of accum_empty "''20240101_000000''" iso_reference None "\<lambda>u. None"]
  from t0 e collect_nothing[of iso_reference]
  have first: "main iso_reference None (\<lambda>u. None) ''20240101_000000''
     = \<lparr>files = [], printed = [Nothing_to_save], raised = None\<rparr>"
    by simp
  from example_wikidata_run obtain acc report where
    w: "process_wikidata_results iso_reference (Some example_answer) accum_empty = Inr (acc, report)"
    and n: "length (all_rows acc) = 1"
    by (auto split: sum.splits dest: arg_cong[where f = length])
  from w have col: "collect iso_reference (Some example_answer) (\<lambda>u. None) = Inr acc"
    by (rule collect_no_feed)
  from n have ne: "all_rows acc \<noteq> []" by auto
  note t1 = export_outcome[of acc "''20240101_000000''" iso_reference "Some example_answer" "\<lambda>u. None"]
  from t1 col have m: "main iso_reference (Some example_answer) (\<lambda>u. None) ''20240101_000000''
      = export_results ''20240101_000000'' acc"
    and k: "\<forall>k \<in> set (map fst (events_by_date acc)). canonical_label k"
    by blast+
  from t1 ne k obtain table groups where
    "export_results ''20240101_000000'' acc =
          \<lparr>files = [(''files/crime_anniversaries_merged_'' @ ''20240101_000000'' @ ''.csv'', Table table),
                    (''files/crime_anniversaries_merged_'' @ ''20240101_000000'' @ ''.json'', Grouped groups)],
           printed = [Files_saved (''files/crime_anniversaries_merged_'' @ ''20240101_000000'' @ ''.csv'')
                        (''files/crime_anniversaries_merged_'' @ ''20240101_000000'' @ ''.json'')
                        (length (all_rows acc))],
           raised = None\<rparr>"
    "length table = length (all_rows acc)"
    by blast
  with m n first show ?thesis by auto
qed

end
